theory Spec2Isabelle
  imports Complex_Main
begin

section \<open>Strings, file extensions and paths\<close>

text \<open>
  Python strings are modelled as \<^typ>\<open>string\<close>. The functions of the standard library
  that the scraper calls on them are written out here for POSIX: \<open>str(int)\<close> for the
  positive indices of \<open>enumerate(_, 1)\<close>, \<open>str.lower\<close>, \<open>str.rfind\<close>,
  \<open>os.path.splitext\<close> and the way \<open>pathlib\<close> splits a relative path into its
  components.

  The strings are ASCII strings. \<open>lower\<close> maps the letters \<open>A\<close> to \<open>Z\<close> and leaves every
  other character as it is, whereas Python's \<open>str.lower\<close> also lowers letters beyond ASCII:
  for an extension with such a letter the model keeps the capital where the code writes
  the small letter. No property below depends on which letters an extension has: they use
  only that it starts with a dot and has no slash, which lowering does not change.
\<close>

definition digit_char :: "nat \<Rightarrow> char" where
  "digit_char d = char_of (48 + d)"

fun string_of_nat :: "nat \<Rightarrow> string" where
  "string_of_nat n =
     (if n < 10 then [digit_char n] else string_of_nat (n div 10) @ [digit_char (n mod 10)])"

declare string_of_nat.simps [simp del]

definition is_digit :: "char \<Rightarrow> bool" where
  "is_digit c = (48 \<le> (of_char c :: nat) \<and> (of_char c :: nat) \<le> 57)"

definition lower_char :: "char \<Rightarrow> char" where
  "lower_char c =
     (if 65 \<le> (of_char c :: nat) \<and> (of_char c :: nat) \<le> 90
      then char_of ((of_char c :: nat) + 32) else c)"

definition lower :: "string \<Rightarrow> string" where
  "lower s = map lower_char s"

text \<open>\<open>s.rfind(c)\<close>: the highest index of \<open>c\<close> in \<open>s\<close>, or \<open>-1\<close>.\<close>

definition rfind :: "char \<Rightarrow> string \<Rightarrow> int" where
  "rfind c s =
     (case filter (\<lambda>k. s ! k = c) [0..<length s] of
        [] \<Rightarrow> -1
      | k # ks \<Rightarrow> int (last (k # ks)))"

text \<open>
  \<open>posixpath.splitext\<close>: the extension starts at the last dot, provided that dot comes
  after the last slash and some character between the two is not a dot.
\<close>

definition splitext :: "string \<Rightarrow> string \<times> string" where
  "splitext p =
     (let sepIndex = rfind CHR ''/'' p;
          dotIndex = rfind CHR ''.'' p
      in if dotIndex > sepIndex \<and>
            list_ex (\<lambda>k. p ! k \<noteq> CHR ''.'') [nat (sepIndex + 1)..<nat dotIndex]
         then (take (nat dotIndex) p, drop (nat dotIndex) p)
         else (p, []))"

text \<open>
  \<open>get_file_extension\<close>: \<open>os.path.splitext(urlparse(url).path)[1].lower() or '.jpg'\<close>.
  \<open>urlparse\<close> belongs to the standard library and is a parameter here: it gives the path
  component of the URL, or the message of the \<open>ValueError\<close> it raises.
\<close>

definition get_file_extension :: "(string \<Rightarrow> string + string) \<Rightarrow> string \<Rightarrow> string + string" where
  "get_file_extension urlparse_path url =
     (case urlparse_path url of
        Inl e \<Rightarrow> Inl e
      | Inr path \<Rightarrow>
          (let ext = lower (snd (splitext path))
           in Inr (if ext = [] then ''.jpg'' else ext)))"

text \<open>The shape of every extension \<open>get_file_extension\<close> returns: a dot, then no slash.\<close>

definition valid_ext :: "string \<Rightarrow> bool" where
  "valid_ext ext = (case ext of [] \<Rightarrow> False | c # r \<Rightarrow> c = CHR ''.'' \<and> CHR ''/'' \<notin> set r)"

text \<open>\<open>s.split(c)\<close>, and the components \<open>pathlib\<close> keeps of a relative POSIX path.\<close>

fun split_on :: "char \<Rightarrow> string \<Rightarrow> string list" where
  "split_on c [] = [[]]"
| "split_on c (x # xs) =
     (if x = c then [] # split_on c xs
      else (case split_on c xs of
              [] \<Rightarrow> [[x]]
            | w # ws \<Rightarrow> (x # w) # ws))"

type_synonym path = "string list"

definition path_parts :: "string \<Rightarrow> path" where
  "path_parts s = filter (\<lambda>w. w \<noteq> [] \<and> w \<noteq> ''.'') (split_on CHR ''/'' s)"

text \<open>
  \<open>p / s\<close> for a segment \<open>s\<close> that is not absolute: every segment the scraper joins starts
  with a letter.
\<close>

definition joinpath :: "path \<Rightarrow> string \<Rightarrow> path" where
  "joinpath p s = p @ path_parts s"

fun join_with :: "string \<Rightarrow> string list \<Rightarrow> string" where
  "join_with sep [] = []"
| "join_with sep [w] = w"
| "join_with sep (w # v # ws) = w @ sep @ join_with sep (v # ws)"

definition path_str :: "path \<Rightarrow> string" where
  "path_str p = (if p = [] then ''.'' else join_with ''/'' p)"

section \<open>Destination paths\<close>

text \<open>
  \<open>create_download_directory\<close> derives three directories from the username; the file
  names are the f-strings \<open>post_{i}{ext}\<close> and \<open>post_{i}_carousel_{j}{ext}\<close>.
\<close>

definition base_dir :: "string \<Rightarrow> path" where
  "base_dir username = path_parts (''instagram_downloads/'' @ username)"

definition images_dir :: "string \<Rightarrow> path" where
  "images_dir username = joinpath (base_dir username) ''images''"

definition videos_dir :: "string \<Rightarrow> path" where
  "videos_dir username = joinpath (base_dir username) ''videos''"

definition post_stem :: "nat \<Rightarrow> string" where
  "post_stem i = ''post_'' @ string_of_nat i"

definition carousel_stem :: "nat \<Rightarrow> nat \<Rightarrow> string" where
  "carousel_stem i j = ''post_'' @ string_of_nat i @ ''_carousel_'' @ string_of_nat j"

datatype media_kind = Image | Video

definition media_dir :: "string \<Rightarrow> media_kind \<Rightarrow> path" where
  "media_dir username kind = (case kind of Image \<Rightarrow> images_dir username | Video \<Rightarrow> videos_dir username)"

definition media_stem :: "nat \<Rightarrow> nat option \<Rightarrow> string" where
  "media_stem i c = (case c of None \<Rightarrow> post_stem i | Some j \<Rightarrow> carousel_stem i j)"

text \<open>The destination of the media of one kind at post \<open>i\<close>, carousel position \<open>c\<close>.\<close>

definition save_path :: "string \<Rightarrow> media_kind \<Rightarrow> nat \<Rightarrow> nat option \<Rightarrow> string \<Rightarrow> path" where
  "save_path username kind i c ext = joinpath (media_dir username kind) (media_stem i c @ ext)"

section \<open>Post descriptors, collaborators and the state of a run\<close>

text \<open>
  The dataset is taken to be a JSON array of objects whose \<open>videoUrl\<close> and \<open>displayUrl\<close>
  are strings, \<open>null\<close> or missing (\<open>None\<close> for both), and whose \<open>sidecarItems\<close> is a list of
  such objects, \<open>null\<close> or missing.
\<close>

record sidecar_item =
  item_videoUrl :: "string option"
  item_displayUrl :: "string option"

record post =
  videoUrl :: "string option"
  displayUrl :: "string option"
  sidecarItems :: "sidecar_item list option"

text \<open>\<open>d.get(key)\<close> used as a condition: a missing key, \<open>null\<close> and \<open>""\<close> are all false.\<close>

definition truthy :: "string option \<Rightarrow> bool" where
  "truthy v = (case v of None \<Rightarrow> False | Some s \<Rightarrow> s \<noteq> [])"

text \<open>\<open>d[key]\<close>, read only under a guard that makes the key present.\<close>

definition subscript :: "string option \<Rightarrow> string" where
  "subscript v = (case v of None \<Rightarrow> [] | Some s \<Rightarrow> s)"

datatype likelihood = UNKNOWN | VERY_UNLIKELY | UNLIKELY | POSSIBLE | LIKELY | VERY_LIKELY

fun likelihood_name :: "likelihood \<Rightarrow> string" where
  "likelihood_name UNKNOWN = ''UNKNOWN''"
| "likelihood_name VERY_UNLIKELY = ''VERY_UNLIKELY''"
| "likelihood_name UNLIKELY = ''UNLIKELY''"
| "likelihood_name POSSIBLE = ''POSSIBLE''"
| "likelihood_name LIKELY = ''LIKELY''"
| "likelihood_name VERY_LIKELY = ''VERY_LIKELY''"

record face_annotation =
  joy_likelihood :: likelihood
  sorrow_likelihood :: likelihood
  anger_likelihood :: likelihood
  surprise_likelihood :: likelihood
  detection_confidence :: real

record label_annotation =
  description :: string
  score :: real

record safe_search_annotation =
  adult :: likelihood
  violence :: likelihood
  racy :: likelihood

text \<open>What one download does: \<open>requests.get\<close> raises, \<open>raise_for_status\<close> raises, opening or
  writing the file raises, or every chunk is written.\<close>

datatype fetch_outcome =
    Fetched
  | RequestFailed string
  | BadStatus string
  | WriteFailed string

record run_input =
  directUrls :: "string list"
  resultsType :: string
  resultsLimit :: int

text \<open>
  The collaborators of a run. A result \<open>Inl msg\<close> (or \<open>Some msg\<close>) is an exception with that
  message. \<open>fetch\<close> is asked with the number of downloads attempted before, and the vision
  client with the position of the image in the batch, so that the same URL or file may
  behave differently from one call to the next.
\<close>

record env =
  urlparse_path :: "string \<Rightarrow> string + string"
  mkdir :: "path \<Rightarrow> string option"
  actor_call :: "run_input \<Rightarrow> string + string"
  requests_get :: "string \<Rightarrow> string + string"
  json_loads :: "string \<Rightarrow> string + post list"
  open_write :: "path \<Rightarrow> string option"
  json_dump :: "path \<Rightarrow> string option"
  fetch :: "nat \<Rightarrow> string \<Rightarrow> path \<Rightarrow> fetch_outcome"
  read_image :: "nat \<Rightarrow> path \<Rightarrow> string + string"
  face_detection :: "nat \<Rightarrow> string \<Rightarrow> string + face_annotation list"
  label_detection :: "nat \<Rightarrow> string \<Rightarrow> string + label_annotation list"
  safe_search_detection :: "nat \<Rightarrow> string \<Rightarrow> string + safe_search_annotation"

datatype face_data = FaceData
  (joy: string) (sorrow: string) (anger: string) (surprise: string) (confidence: real)

datatype annotation =
    Analysis (image_path: string) (faces: "face_data list")
      (labels: "(string \<times> real) list") (safe_search: "string \<times> string \<times> string")
  | Failure (image_path: string) (error: string)

datatype summary =
    Success (base_directory: string) (posts_processed: nat) (images_analyzed: nat)
      (metadata_path: string) (analysis_path: string)
  | Error (message: string)

text \<open>
  What a run has done so far: the directories made, every call of \<open>download_media\<close> (URL
  and destination), the files it wrote in full, the list \<open>downloaded_images\<close>, the posts
  whose processing raised, the files opened for writing and the two JSON documents dumped.
\<close>

record run_state =
  dirs_made :: "path list"
  attempts :: "(string \<times> path) list"
  stored :: "path list"
  downloaded_images :: "path list"
  failed_posts :: "(nat \<times> string) list"
  files_opened :: "path list"
  metadata :: "post list option"
  analysis :: "annotation list option"

definition initial_state :: run_state where
  "initial_state = \<lparr>dirs_made = [], attempts = [], stored = [], downloaded_images = [],
     failed_posts = [], files_opened = [], metadata = None, analysis = None\<rparr>"

section \<open>The scraper\<close>

subsection \<open>\<open>download_media\<close>\<close>

text \<open>
  The body is one \<open>try\<close> whose handler catches every \<open>Exception\<close>, logs it and returns
  \<open>False\<close>; only a complete write returns \<open>True\<close>. Log lines are not modelled.
\<close>

definition download_media :: "env \<Rightarrow> string \<Rightarrow> path \<Rightarrow> run_state \<Rightarrow> bool \<times> run_state" where
  "download_media e url target st =
     (let st' = st\<lparr>attempts := attempts st @ [(url, target)]\<rparr>
      in case fetch e (length (attempts st)) url target of
           Fetched \<Rightarrow> (True, st'\<lparr>stored := stored st' @ [target]\<rparr>)
         | RequestFailed msg \<Rightarrow> (False, st')
         | BadStatus msg \<Rightarrow> (False, st')
         | WriteFailed msg \<Rightarrow> (False, st'))"

subsection \<open>\<open>create_download_directory\<close>\<close>

fun mkdirs :: "env \<Rightarrow> path list \<Rightarrow> run_state \<Rightarrow> string option \<times> run_state" where
  "mkdirs e [] st = (None, st)"
| "mkdirs e (d # ds) st =
     (case mkdir e d of
        Some msg \<Rightarrow> (Some msg, st)
      | None \<Rightarrow> mkdirs e ds (st\<lparr>dirs_made := dirs_made st @ [d]\<rparr>))"

definition create_download_directory :: "env \<Rightarrow> string \<Rightarrow> run_state \<Rightarrow> string option \<times> run_state" where
  "create_download_directory e username st =
     mkdirs e [base_dir username, images_dir username, videos_dir username] st"

subsection \<open>\<open>analyze_images\<close>\<close>

definition face_data_of :: "face_annotation \<Rightarrow> face_data" where
  "face_data_of face =
     FaceData (likelihood_name (joy_likelihood face)) (likelihood_name (sorrow_likelihood face))
       (likelihood_name (anger_likelihood face)) (likelihood_name (surprise_likelihood face))
       (detection_confidence face)"

definition label_data_of :: "label_annotation \<Rightarrow> string \<times> real" where
  "label_data_of label = (description label, score label)"

definition safe_search_data_of :: "safe_search_annotation \<Rightarrow> string \<times> string \<times> string" where
  "safe_search_data_of s =
     (likelihood_name (adult s), likelihood_name (violence s), likelihood_name (racy s))"

text \<open>The body of the loop: the \<open>try\<close> block for the image at position \<open>k\<close> and its handler.\<close>

definition analyze_one :: "env \<Rightarrow> nat \<Rightarrow> path \<Rightarrow> annotation" where
  "analyze_one e k img =
     (case read_image e k img of
        Inl msg \<Rightarrow> Failure (path_str img) msg
      | Inr content \<Rightarrow>
     (case face_detection e k content of
        Inl msg \<Rightarrow> Failure (path_str img) msg
      | Inr face_annotations \<Rightarrow>
     (case label_detection e k content of
        Inl msg \<Rightarrow> Failure (path_str img) msg
      | Inr label_annotations \<Rightarrow>
     (case safe_search_detection e k content of
        Inl msg \<Rightarrow> Failure (path_str img) msg
      | Inr safe_search_annotation \<Rightarrow>
          Analysis (path_str img) (map face_data_of face_annotations)
            (map label_data_of label_annotations)
            (safe_search_data_of safe_search_annotation)))))"

fun analyze_loop :: "env \<Rightarrow> nat \<Rightarrow> path list \<Rightarrow> annotation list \<Rightarrow> annotation list" where
  "analyze_loop e k [] results = results"
| "analyze_loop e k (img # rest) results =
     analyze_loop e (Suc k) rest (results @ [analyze_one e k img])"

definition analyze_images :: "env \<Rightarrow> path list \<Rightarrow> annotation list" where
  "analyze_images e image_paths = analyze_loop e 0 image_paths []"

subsection \<open>Processing one post\<close>

text \<open>
  A step returns \<open>Some msg\<close> when it raised (the state keeps what was done before) and
  \<open>None\<close> when it ran to its end. The two bodies below are the video branches and the
  image branches: the extension, the destination, the download and, for an image that
  was downloaded, the append to \<open>downloaded_images\<close>.
\<close>

definition handle_video :: "env \<Rightarrow> string \<Rightarrow> string \<Rightarrow> string \<Rightarrow> run_state \<Rightarrow> string option \<times> run_state" where
  "handle_video e username stem url st =
     (case get_file_extension (urlparse_path e) url of
        Inl msg \<Rightarrow> (Some msg, st)
      | Inr ext \<Rightarrow>
          (None, snd (download_media e url (joinpath (videos_dir username) (stem @ ext)) st)))"

definition handle_image :: "env \<Rightarrow> string \<Rightarrow> string \<Rightarrow> string \<Rightarrow> run_state \<Rightarrow> string option \<times> run_state" where
  "handle_image e username stem url st =
     (case get_file_extension (urlparse_path e) url of
        Inl msg \<Rightarrow> (Some msg, st)
      | Inr ext \<Rightarrow>
          (let target = joinpath (images_dir username) (stem @ ext);
               r = download_media e url target st
           in if fst r
              then (None, (snd r)\<lparr>downloaded_images := downloaded_images (snd r) @ [target]\<rparr>)
              else (None, snd r)))"

text \<open>Lines 177 to 190: the video test, then the image test.\<close>

definition process_top :: "env \<Rightarrow> string \<Rightarrow> nat \<Rightarrow> post \<Rightarrow> run_state \<Rightarrow> string option \<times> run_state" where
  "process_top e username i p st =
     (case (if truthy (videoUrl p)
            then handle_video e username (post_stem i) (subscript (videoUrl p)) st
            else (None, st)) of
        (Some msg, st1) \<Rightarrow> (Some msg, st1)
      | (None, st1) \<Rightarrow>
          (if truthy (displayUrl p) \<and> \<not> truthy (videoUrl p)
           then handle_image e username (post_stem i) (subscript (displayUrl p)) st1
           else (None, st1)))"

text \<open>Lines 195 to 205: the body of the carousel loop, with the image test first.\<close>

definition process_item :: "env \<Rightarrow> string \<Rightarrow> nat \<Rightarrow> nat \<Rightarrow> sidecar_item \<Rightarrow> run_state \<Rightarrow> string option \<times> run_state" where
  "process_item e username i j item st =
     (if truthy (item_displayUrl item) \<and> \<not> truthy (item_videoUrl item)
      then handle_image e username (carousel_stem i j) (subscript (item_displayUrl item)) st
      else if truthy (item_videoUrl item)
      then handle_video e username (carousel_stem i j) (subscript (item_videoUrl item)) st
      else (None, st))"

fun process_items :: "env \<Rightarrow> string \<Rightarrow> nat \<Rightarrow> nat \<Rightarrow> sidecar_item list \<Rightarrow> run_state \<Rightarrow> string option \<times> run_state" where
  "process_items e username i j [] st = (None, st)"
| "process_items e username i j (item # rest) st =
     (case process_item e username i j item st of
        (Some msg, st') \<Rightarrow> (Some msg, st')
      | (None, st') \<Rightarrow> process_items e username i (Suc j) rest st')"

text \<open>Line 193: an absent, \<open>null\<close> or empty \<open>sidecarItems\<close> is skipped.\<close>

definition process_carousel :: "env \<Rightarrow> string \<Rightarrow> nat \<Rightarrow> post \<Rightarrow> run_state \<Rightarrow> string option \<times> run_state" where
  "process_carousel e username i p st =
     (case sidecarItems p of
        None \<Rightarrow> (None, st)
      | Some items \<Rightarrow> process_items e username i 1 items st)"

definition process_post :: "env \<Rightarrow> string \<Rightarrow> nat \<Rightarrow> post \<Rightarrow> run_state \<Rightarrow> string option \<times> run_state" where
  "process_post e username i p st =
     (case process_top e username i p st of
        (Some msg, st') \<Rightarrow> (Some msg, st')
      | (None, st') \<Rightarrow> process_carousel e username i p st')"

text \<open>The loop over the posts: an exception of one post is logged and the loop goes on.\<close>

fun process_posts :: "env \<Rightarrow> string \<Rightarrow> nat \<Rightarrow> post list \<Rightarrow> run_state \<Rightarrow> run_state" where
  "process_posts e username i [] st = st"
| "process_posts e username i (p # rest) st =
     (case process_post e username i p st of
        (Some msg, st') \<Rightarrow>
          process_posts e username (Suc i) rest (st'\<lparr>failed_posts := failed_posts st' @ [(i, msg)]\<rparr>)
      | (None, st') \<Rightarrow> process_posts e username (Suc i) rest st')"

subsection \<open>\<open>scrape_and_analyze\<close>\<close>

definition make_run_input :: "string \<Rightarrow> int \<Rightarrow> run_input" where
  "make_run_input username limit =
     \<lparr>directUrls = [''https://www.instagram.com/'' @ username @ ''/''],
      resultsType = ''posts'', resultsLimit = limit\<rparr>"

definition dataset_url :: "string \<Rightarrow> string" where
  "dataset_url dataset_id =
     ''https://api.apify.com/v2/datasets/'' @ dataset_id @ ''/items?format=json''"

text \<open>
  The result is \<open>Inl msg\<close> when the call raises to its caller, which only the directory
  creation outside the \<open>try\<close> can do, and \<open>Inr\<close> of the returned dictionary otherwise.
  \<open>actor_call\<close> stands for the actor run and the lookup of \<open>defaultDatasetId\<close>,
  \<open>requests_get\<close> for the request and \<open>raise_for_status\<close>. The metadata file is opened
  before the content is parsed.
\<close>

definition scrape_and_analyze :: "env \<Rightarrow> string \<Rightarrow> int \<Rightarrow> (string + summary) \<times> run_state" where
  "scrape_and_analyze e username limit =
     (case create_download_directory e username initial_state of
        (Some msg, st0) \<Rightarrow> (Inl msg, st0)
      | (None, st0) \<Rightarrow>
     (case actor_call e (make_run_input username limit) of
        Inl msg \<Rightarrow> (Inr (Error msg), st0)
      | Inr dataset_id \<Rightarrow>
     (case requests_get e (dataset_url dataset_id) of
        Inl msg \<Rightarrow> (Inr (Error msg), st0)
      | Inr content \<Rightarrow>
     (let metadata_file = joinpath (base_dir username) ''metadata.json'' in
      case open_write e metadata_file of
        Some msg \<Rightarrow> (Inr (Error msg), st0)
      | None \<Rightarrow>
     (let st1 = st0\<lparr>files_opened := files_opened st0 @ [metadata_file]\<rparr> in
      case json_loads e content of
        Inl msg \<Rightarrow> (Inr (Error msg), st1)
      | Inr posts \<Rightarrow>
     (case json_dump e metadata_file of
        Some msg \<Rightarrow> (Inr (Error msg), st1)
      | None \<Rightarrow>
     (let st2 = process_posts e username 1 posts (st1\<lparr>metadata := Some posts\<rparr>);
          analysis_results = analyze_images e (downloaded_images st2);
          analysis_file = joinpath (base_dir username) ''analysis_results.json''
      in case open_write e analysis_file of
        Some msg \<Rightarrow> (Inr (Error msg), st2)
      | None \<Rightarrow>
     (let st3 = st2\<lparr>files_opened := files_opened st2 @ [analysis_file]\<rparr> in
      case json_dump e analysis_file of
        Some msg \<Rightarrow> (Inr (Error msg), st3)
      | None \<Rightarrow>
          (Inr (Success (path_str (base_dir username)) (length posts)
                  (length analysis_results) (path_str metadata_file) (path_str analysis_file)),
           st3\<lparr>analysis := Some analysis_results\<rparr>)))))))))"

section \<open>Sample inputs\<close>

text \<open>
  The two posts of the end-to-end scenario, and an environment in which every collaborator
  answers, every download succeeds, \<open>urlparse\<close> rejects one malformed URL and the vision
  service fails for the second image of a batch only.
\<close>

definition scenario_posts :: "post list" where
  "scenario_posts =
     [\<lparr>videoUrl = None, displayUrl = Some ''a.jpg'', sidecarItems = None\<rparr>,
      \<lparr>videoUrl = Some ''b.mp4'', displayUrl = None,
       sidecarItems = Some [\<lparr>item_videoUrl = None, item_displayUrl = Some ''c.jpg''\<rparr>,
                            \<lparr>item_videoUrl = Some ''d.mp4'', item_displayUrl = None\<rparr>]\<rparr>]"

definition scenario_env :: env where
  "scenario_env =
     \<lparr>urlparse_path = (\<lambda>u. if u = ''http://[bad'' then Inl ''Invalid IPv6 URL'' else Inr u),
      mkdir = (\<lambda>d. None),
      actor_call = (\<lambda>r. Inr ''ds1''),
      requests_get = (\<lambda>u. Inr ''[]''),
      json_loads = (\<lambda>c. Inr scenario_posts),
      open_write = (\<lambda>p. None),
      json_dump = (\<lambda>p. None),
      fetch = (\<lambda>n u p. Fetched),
      read_image = (\<lambda>k p. Inr ''bytes''),
      face_detection = (\<lambda>k c. if k = 1 then Inl ''503 unavailable'' else Inr []),
      label_detection = (\<lambda>k c. Inr []),
      safe_search_detection =
        (\<lambda>k c. Inr \<lparr>adult = VERY_UNLIKELY, violence = UNLIKELY, racy = POSSIBLE\<rparr>)\<rparr>"

text \<open>
  Four posts that go wrong in different ways: one whose video URL cannot be parsed, one
  with no media, one with an empty video URL and an image whose download fails, and one
  plain image. \<open>rough_env\<close> serves them and lets that one download time out.
\<close>

definition rough_posts :: "post list" where
  "rough_posts =
     [\<lparr>videoUrl = Some ''http://[bad'', displayUrl = Some ''x.jpg'', sidecarItems = None\<rparr>,
      \<lparr>videoUrl = None, displayUrl = None, sidecarItems = None\<rparr>,
      \<lparr>videoUrl = Some [], displayUrl = Some ''fail.png'', sidecarItems = Some []\<rparr>,
      \<lparr>videoUrl = None, displayUrl = Some ''ok.PNG'', sidecarItems = None\<rparr>]"

definition rough_env :: env where
  "rough_env =
     scenario_env
       \<lparr>json_loads := (\<lambda>c. Inr rough_posts),
        fetch := (\<lambda>n url p. if url = ''fail.png'' then RequestFailed ''timed out'' else Fetched)\<rparr>"

text \<open>
  The scenario again, with a disk that fills up at the very end: writing
  \<open>analysis_results.json\<close> for the user \<open>bob\<close> raises.
\<close>

definition late_failure_env :: env where
  "late_failure_env =
     scenario_env
       \<lparr>json_dump :=
          (\<lambda>p. if p = [''instagram_downloads'', ''bob'', ''analysis_results.json'']
                then Some ''No space left on device'' else None)\<rparr>"

section \<open>Relations and invariants used in the proofs\<close>

text \<open>
  Two states with the same download attempts and the same failed posts, and two steps
  with the same outcome that leave such states.
\<close>

definition same_trace :: "run_state \<Rightarrow> run_state \<Rightarrow> bool" where
  "same_trace a b = (attempts a = attempts b \<and> failed_posts a = failed_posts b)"

definition same_step :: "string option \<times> run_state \<Rightarrow> string option \<times> run_state \<Rightarrow> bool" where
  "same_step r r' = (fst r = fst r' \<and> same_trace (snd r) (snd r'))"

text \<open>
  The invariant of the loops. At post \<open>i\<close>, with the slots below \<open>n\<close> of that post done
  (slot 0 is the top-level media, slot \<open>j + 1\<close> the carousel item \<open>j\<close>), every attempt so
  far has a non-empty URL and a destination planned for an earlier post or an earlier slot;
  destinations are pairwise distinct, so are the stored files, which are all among the
  attempts, and \<open>downloaded_images\<close> lists the stored files of the images directory.
\<close>

definition slot :: "nat option \<Rightarrow> nat" where
  "slot c = (case c of None \<Rightarrow> 0 | Some j \<Rightarrow> Suc j)"

definition planned :: "string \<Rightarrow> nat \<Rightarrow> nat \<Rightarrow> string \<times> path \<Rightarrow> bool" where
  "planned u i n a =
     (fst a \<noteq> [] \<and>
      (\<exists>k i' c ext. valid_ext ext \<and> snd a = save_path u k i' c ext \<and>
         (i' < i \<or> (i' = i \<and> slot c < n))))"

definition run_inv :: "string \<Rightarrow> nat \<Rightarrow> nat \<Rightarrow> run_state \<Rightarrow> bool" where
  "run_inv u i n st =
     (list_all (planned u i n) (attempts st) \<and>
      distinct (map snd (attempts st)) \<and>
      distinct (stored st) \<and>
      set (stored st) \<subseteq> snd ` set (attempts st) \<and>
      downloaded_images st = filter (\<lambda>p. butlast p = images_dir u) (stored st))"

text \<open>The state in which the loop over the posts starts, and the one in which it ends.\<close>

definition loop_start :: "env \<Rightarrow> string \<Rightarrow> post list \<Rightarrow> run_state" where
  "loop_start e u posts =
     (snd (create_download_directory e u initial_state))
       \<lparr>files_opened := [joinpath (base_dir u) ''metadata.json''], metadata := Some posts\<rparr>"

definition loop_end :: "env \<Rightarrow> string \<Rightarrow> post list \<Rightarrow> run_state" where
  "loop_end e u posts = process_posts e u 1 posts (loop_start e u posts)"


text \<open>
  The rule for one carousel item in the words of the specification: a video if the item
  has a video URL, else an image if it has a display URL, else nothing.
\<close>

definition process_item_video_first :: "env \<Rightarrow> string \<Rightarrow> nat \<Rightarrow> nat \<Rightarrow> sidecar_item \<Rightarrow> run_state \<Rightarrow> string option \<times> run_state" where
  "process_item_video_first e username i j item st =
     (if truthy (item_videoUrl item)
      then handle_video e username (carousel_stem i j) (subscript (item_videoUrl item)) st
      else if truthy (item_displayUrl item)
      then handle_image e username (carousel_stem i j) (subscript (item_displayUrl item)) st
      else (None, st))"




section \<open>Facts about strings and paths\<close>

lemma digit_char_is_digit: "d < 10 \<Longrightarrow> is_digit (digit_char d)"
  by (simp add: is_digit_def digit_char_def)

lemma digit_char_inj: "d < 10 \<Longrightarrow> e < 10 \<Longrightarrow> digit_char d = digit_char e \<Longrightarrow> d = e"
proof -
  assume a: "d < 10" "e < 10" "digit_char d = digit_char e"
  then have "(of_char (digit_char d) :: nat) = of_char (digit_char e)" by simp
  with a show ?thesis by (simp add: digit_char_def)
qed

lemma string_of_nat_digits: "list_all is_digit (string_of_nat n)"
proof (induction n rule: string_of_nat.induct)
  case (1 n)
  show ?case
  proof (cases "n < 10")
    case True
    then show ?thesis by (simp add: string_of_nat.simps [of n] digit_char_is_digit)
  next
    case False
    with 1 show ?thesis by (simp add: string_of_nat.simps [of n] digit_char_is_digit)
  qed
qed

lemma string_of_nat_nonempty: "string_of_nat n \<noteq> []"
  by (subst string_of_nat.simps) simp

lemma string_of_nat_snoc:
  "string_of_nat n = butlast (string_of_nat n) @ [digit_char (n mod 10)]"
  by (subst string_of_nat.simps) (simp add: string_of_nat.simps [of n])

lemma string_of_nat_inj: "string_of_nat m = string_of_nat n \<Longrightarrow> m = n"
proof (induction m arbitrary: n rule: string_of_nat.induct)
  case (1 m)
  show ?case
  proof (cases "m < 10")
    case mlt: True
    show ?thesis
    proof (cases "n < 10")
      case True
      with mlt 1(2) show ?thesis
        by (simp add: string_of_nat.simps [of m] string_of_nat.simps [of n] digit_char_inj)
    next
      case False
      with mlt 1(2) have "[digit_char m] = string_of_nat (n div 10) @ [digit_char (n mod 10)]"
        by (simp add: string_of_nat.simps [of m] string_of_nat.simps [of n])
      then show ?thesis using string_of_nat_nonempty [of "n div 10"] by simp
    qed
  next
    case mge: False
    show ?thesis
    proof (cases "n < 10")
      case True
      with mge 1(2) have "string_of_nat (m div 10) @ [digit_char (m mod 10)] = [digit_char n]"
        by (simp add: string_of_nat.simps [of m] string_of_nat.simps [of n])
      then show ?thesis using string_of_nat_nonempty [of "m div 10"] by simp
    next
      case False
      with mge 1(2) have e: "string_of_nat (m div 10) = string_of_nat (n div 10)"
        and d: "digit_char (m mod 10) = digit_char (n mod 10)"
        by (simp_all add: string_of_nat.simps [of m] string_of_nat.simps [of n])
      from 1(1) [OF mge e] have "m div 10 = n div 10" .
      moreover from d have "m mod 10 = n mod 10" by (simp add: digit_char_inj)
      ultimately show ?thesis by (metis div_mult_mod_eq)
    qed
  qed
qed

lemma run_then_stop:
  "list_all P xs \<Longrightarrow> list_all P ys \<Longrightarrow> \<not> P c \<Longrightarrow> \<not> P d \<Longrightarrow>
   xs @ c # r = ys @ d # s \<Longrightarrow> xs = ys \<and> c = d \<and> r = s"
proof (induction xs arbitrary: ys)
  case Nil
  then show ?case by (cases ys) auto
next
  case (Cons x xs)
  then show ?case by (cases ys) auto
qed

lemma lower_char_dot: "lower_char CHR ''.'' = CHR ''.''"
  by (simp add: lower_char_def)

lemma lower_char_not_slash: "c \<noteq> CHR ''/'' \<Longrightarrow> lower_char c \<noteq> CHR ''/''"
proof (cases "65 \<le> (of_char c :: nat) \<and> (of_char c :: nat) \<le> 90")
  case True
  then have "(of_char (lower_char c) :: nat) = of_char c + 32"
    by (simp add: lower_char_def)
  with True have "(of_char (lower_char c) :: nat) \<noteq> of_char CHR ''/''" by simp
  then show ?thesis by metis
next
  case False
  assume "c \<noteq> CHR ''/''"
  with False show ?thesis by (auto simp: lower_char_def)
qed

lemma split_on_no_sep: "c \<notin> set s \<Longrightarrow> split_on c s = [s]"
  by (induction s) auto

lemma path_parts_single:
  "CHR ''/'' \<notin> set s \<Longrightarrow> s \<noteq> [] \<Longrightarrow> s \<noteq> ''.'' \<Longrightarrow> path_parts s = [s]"
  by (simp add: path_parts_def split_on_no_sep)

lemma sorted_le_last: "sorted (xs::nat list) \<Longrightarrow> j \<in> set xs \<Longrightarrow> j \<le> last xs"
  by (induction xs) auto

lemma rfind_cases:
  "(rfind c s = -1 \<and> c \<notin> set s) \<or>
   (\<exists>k. rfind c s = int k \<and> k < length s \<and> s ! k = c \<and> (\<forall>j. k < j \<and> j < length s \<longrightarrow> s ! j \<noteq> c))"
proof (cases "filter (\<lambda>k. s ! k = c) [0..<length s]")
  case Nil
  then have "c \<notin> set s" by (auto simp: filter_empty_conv in_set_conv_nth)
  with Nil show ?thesis by (simp add: rfind_def)
next
  case (Cons k ks)
  define f where "f = filter (\<lambda>k. s ! k = c) [0..<length s]"
  have r: "rfind c s = int (last f)" using Cons by (simp add: rfind_def f_def)
  have ne: "f \<noteq> []" using Cons by (simp add: f_def)
  have mem: "last f \<in> set f" using ne by (rule last_in_set)
  have srt: "sorted f" unfolding f_def by (rule sorted_wrt_filter) simp
  have a: "last f < length s" and b: "s ! last f = c" using mem by (simp_all add: f_def)
  have top: "s ! j \<noteq> c" if "last f < j" "j < length s" for j
  proof
    assume "s ! j = c"
    with that(2) have "j \<in> set f" by (simp add: f_def)
    with srt have "j \<le> last f" by (rule sorted_le_last)
    with that(1) show False by simp
  qed
  show ?thesis using r a b top by blast
qed

lemma splitext_ext:
  "snd (splitext p) = [] \<or>
   (\<exists>r. snd (splitext p) = CHR ''.'' # r \<and> CHR ''/'' \<notin> set r)"
proof (cases "rfind CHR ''.'' p > rfind CHR ''/'' p \<and>
    list_ex (\<lambda>k. p ! k \<noteq> CHR ''.'') [nat (rfind CHR ''/'' p + 1)..<nat (rfind CHR ''.'' p)]")
  case False
  then show ?thesis by (auto simp: splitext_def Let_def)
next
  case True
  then have ext: "snd (splitext p) = drop (nat (rfind CHR ''.'' p)) p"
    by (simp add: splitext_def Let_def)
  have gt: "rfind CHR ''.'' p > rfind CHR ''/'' p" using True by simp
  have lo: "rfind CHR ''/'' p \<ge> -1" using rfind_cases [of "CHR ''/''" p] by auto
  from gt lo rfind_cases [of "CHR ''.''" p]
  obtain k where k: "rfind CHR ''.'' p = int k" "k < length p" "p ! k = CHR ''.''"
    by auto
  have noslash: "p ! j \<noteq> CHR ''/''" if "k \<le> j" "j < length p" for j
  proof (cases "CHR ''/'' \<in> set p")
    case False
    with that(2) show ?thesis by (metis nth_mem)
  next
    case True
    with rfind_cases [of "CHR ''/''" p]
    obtain m where m: "rfind CHR ''/'' p = int m"
      "\<forall>j. m < j \<and> j < length p \<longrightarrow> p ! j \<noteq> CHR ''/''" by blast
    from gt k(1) m(1) have "m < k" by simp
    with that m(2) show ?thesis by simp
  qed
  have "drop k p = CHR ''.'' # drop (Suc k) p"
    using k(2,3) Cons_nth_drop_Suc [of k p] by simp
  moreover have "CHR ''/'' \<notin> set (drop (Suc k) p)"
  proof
    assume "CHR ''/'' \<in> set (drop (Suc k) p)"
    then obtain i where "i < length p - Suc k" "p ! (Suc k + i) = CHR ''/''"
      by (auto simp: in_set_conv_nth)
    with noslash [of "Suc k + i"] show False by simp
  qed
  ultimately show ?thesis using ext k(1) by simp
qed

lemma get_file_extension_shape:
  assumes "get_file_extension up url = Inr ext"
  shows "\<exists>r. ext = CHR ''.'' # r \<and> CHR ''/'' \<notin> set r"
proof -
  from assms obtain path where p: "up url = Inr path"
    by (cases "up url") (simp_all add: get_file_extension_def)
  with assms have e: "ext = (if lower (snd (splitext path)) = [] then ''.jpg'' else lower (snd (splitext path)))"
    by (simp add: get_file_extension_def Let_def)
  show ?thesis
  proof (cases "snd (splitext path) = []")
    case True
    with e show ?thesis by (simp add: lower_def)
  next
    case False
    with splitext_ext [of path] obtain r where r: "snd (splitext path) = CHR ''.'' # r"
      "CHR ''/'' \<notin> set r" by auto
    then have "lower (snd (splitext path)) = CHR ''.'' # lower r"
      by (simp add: lower_def lower_char_dot)
    moreover have "CHR ''/'' \<notin> set (lower r)"
    proof
      assume "CHR ''/'' \<in> set (lower r)"
      then obtain d where d: "d \<in> set r" "lower_char d = CHR ''/''"
        unfolding lower_def by (metis (no_types) imageE list.set_map)
      from d(1) r(2) have "d \<noteq> CHR ''/''" by metis
      with d(2) lower_char_not_slash [of d] show False by simp
    qed
    ultimately show ?thesis using e by simp
  qed
qed

lemma not_digit_dot: "\<not> is_digit CHR ''.''" by (simp add: is_digit_def)
lemma not_digit_underscore: "\<not> is_digit CHR ''_''" by (simp add: is_digit_def)
lemma not_digit_slash: "\<not> is_digit CHR ''/''" by (simp add: is_digit_def)

lemma string_of_nat_no_slash: "CHR ''/'' \<notin> set (string_of_nat n)"
  using string_of_nat_digits [of n] not_digit_slash by (auto simp: list_all_iff)

lemma get_file_extension_valid: "get_file_extension up url = Inr ext \<Longrightarrow> valid_ext ext"
  using get_file_extension_shape [of up url ext] by (auto simp: valid_ext_def)

lemma media_stem_no_slash: "CHR ''/'' \<notin> set (media_stem i c)"
  by (cases c) (simp_all add: media_stem_def post_stem_def carousel_stem_def string_of_nat_no_slash)

lemma media_stem_prefix: "\<exists>t. media_stem i c = ''post_'' @ t"
  by (cases c) (simp_all add: media_stem_def post_stem_def carousel_stem_def)

lemma path_parts_name:
  assumes "valid_ext ext"
  shows "path_parts (media_stem i c @ ext) = [media_stem i c @ ext]"
proof -
  from assms obtain r where r: "ext = CHR ''.'' # r" "CHR ''/'' \<notin> set r"
    by (cases ext) (simp_all add: valid_ext_def)
  obtain t where t: "media_stem i c = ''post_'' @ t" using media_stem_prefix by blast
  have "CHR ''/'' \<notin> set (media_stem i c @ ext)" using r media_stem_no_slash [of i c] by simp
  moreover have "media_stem i c @ ext \<noteq> []" using r by simp
  moreover have "media_stem i c @ ext \<noteq> ''.''" using t by simp
  ultimately show ?thesis by (rule path_parts_single)
qed

lemma path_parts_images: "path_parts ''images'' = [''images'']"
  by (simp add: path_parts_def)

lemma path_parts_videos: "path_parts ''videos'' = [''videos'']"
  by (simp add: path_parts_def)

lemma save_path_parts:
  "valid_ext ext \<Longrightarrow>
   save_path u k i c ext =
     base_dir u @ [case k of Image \<Rightarrow> ''images'' | Video \<Rightarrow> ''videos'', media_stem i c @ ext]"
  by (cases k)
    (simp_all add: save_path_def media_dir_def images_dir_def videos_dir_def joinpath_def
      path_parts_name path_parts_images path_parts_videos)

lemma stem_ext_inj:
  assumes "valid_ext e1" "valid_ext e2" "media_stem i c @ e1 = media_stem i' c' @ e2"
  shows "i = i' \<and> c = c'"
proof -
  from assms(1) obtain r1 where r1: "e1 = CHR ''.'' # r1" by (cases e1) (simp_all add: valid_ext_def)
  from assms(2) obtain r2 where r2: "e2 = CHR ''.'' # r2" by (cases e2) (simp_all add: valid_ext_def)
  note dg = string_of_nat_digits not_digit_dot not_digit_underscore
  show ?thesis
  proof (cases c)
    case None
    show ?thesis
    proof (cases c')
      case n2: None
      from assms(3) None n2 r1 r2
      have "string_of_nat i @ CHR ''.'' # r1 = string_of_nat i' @ CHR ''.'' # r2"
        by (simp add: media_stem_def post_stem_def)
      then have "string_of_nat i = string_of_nat i'"
        using run_then_stop [OF dg(1) dg(1) dg(2) dg(2)] by blast
      then show ?thesis using None n2 by (simp add: string_of_nat_inj)
    next
      case (Some j')
      from assms(3) None Some r1 r2
      have "string_of_nat i @ CHR ''.'' # r1 =
            string_of_nat i' @ CHR ''_'' # (''carousel_'' @ string_of_nat j' @ e2)"
        by (simp add: media_stem_def post_stem_def carousel_stem_def)
      then have "CHR ''.'' = CHR ''_''"
        using run_then_stop [OF dg(1) dg(1) dg(2) dg(3)] by blast
      then show ?thesis by simp
    qed
  next
    case (Some j)
    show ?thesis
    proof (cases c')
      case None
      from assms(3) None Some r1 r2
      have "string_of_nat i @ CHR ''_'' # (''carousel_'' @ string_of_nat j @ e1) =
            string_of_nat i' @ CHR ''.'' # r2"
        by (simp add: media_stem_def post_stem_def carousel_stem_def)
      then have "CHR ''_'' = CHR ''.''"
        using run_then_stop [OF dg(1) dg(1) dg(3) dg(2)] by blast
      then show ?thesis by simp
    next
      case s2: (Some j')
      from assms(3) Some s2 r1 r2
      have eq: "string_of_nat i @ CHR ''_'' # (''carousel_'' @ string_of_nat j @ CHR ''.'' # r1) =
            string_of_nat i' @ CHR ''_'' # (''carousel_'' @ string_of_nat j' @ CHR ''.'' # r2)"
        by (simp add: media_stem_def post_stem_def carousel_stem_def)
      from run_then_stop [OF dg(1) dg(1) dg(3) dg(3) eq]
      have a: "string_of_nat i = string_of_nat i'"
        and b: "string_of_nat j @ CHR ''.'' # r1 = string_of_nat j' @ CHR ''.'' # r2"
        by simp_all
      from run_then_stop [OF dg(1) dg(1) dg(2) dg(2) b]
      have "string_of_nat j = string_of_nat j'" by simp
      with a show ?thesis using Some s2 by (simp add: string_of_nat_inj)
    qed
  qed
qed

lemma save_path_inj:
  assumes "valid_ext e1" "valid_ext e2" "save_path u k i c e1 = save_path u k' i' c' e2"
  shows "k = k' \<and> i = i' \<and> c = c'"
proof -
  from assms have eq:
    "[case k of Image \<Rightarrow> ''images'' | Video \<Rightarrow> ''videos'', media_stem i c @ e1] =
     [case k' of Image \<Rightarrow> ''images'' | Video \<Rightarrow> ''videos'', media_stem i' c' @ e2]"
    by (simp add: save_path_parts)
  then have "k = k'" by (cases k; cases k') simp_all
  moreover from eq have "media_stem i c @ e1 = media_stem i' c' @ e2" by simp
  from stem_ext_inj [OF assms(1,2) this] have "i = i' \<and> c = c'" .
  ultimately show ?thesis by simp
qed

text \<open>The four destinations of the scraper are instances of \<open>save_path\<close>.\<close>

lemma save_path_top_video:
  "joinpath (videos_dir u) (post_stem i @ ext) = save_path u Video i None ext"
  by (simp add: save_path_def media_dir_def media_stem_def)

lemma save_path_top_image:
  "joinpath (images_dir u) (post_stem i @ ext) = save_path u Image i None ext"
  by (simp add: save_path_def media_dir_def media_stem_def)

lemma save_path_carousel_video:
  "joinpath (videos_dir u) (carousel_stem i j @ ext) = save_path u Video i (Some j) ext"
  by (simp add: save_path_def media_dir_def media_stem_def)

lemma save_path_carousel_image:
  "joinpath (images_dir u) (carousel_stem i j @ ext) = save_path u Image i (Some j) ext"
  by (simp add: save_path_def media_dir_def media_stem_def)

section \<open>Facts about the scraper\<close>

lemma analyze_loop_eq:
  "analyze_loop e k ps rs = rs @ map (\<lambda>n. analyze_one e (k + n) (ps ! n)) [0..<length ps]"
proof (induction ps arbitrary: k rs)
  case Nil
  then show ?case by simp
next
  case (Cons p ps)
  have "map (\<lambda>n. analyze_one e (k + n) ((p # ps) ! n)) [0..<length (p # ps)] =
        analyze_one e k p # map (\<lambda>n. analyze_one e (Suc k + n) (ps ! n)) [0..<length ps]"
    by (simp add: map_upt_Suc del: upt_Suc)
  with Cons.IH [of "Suc k" "rs @ [analyze_one e k p]"] show ?case by simp
qed

lemma analyze_images_eq:
  "analyze_images e ps = map (\<lambda>n. analyze_one e n (ps ! n)) [0..<length ps]"
  by (simp add: analyze_images_def analyze_loop_eq)

lemma analyze_one_image_path: "image_path (analyze_one e k p) = path_str p"
  by (simp add: analyze_one_def split: sum.splits)

lemma download_media_attempts:
  "attempts (snd (download_media e url t st)) = attempts st @ [(url, t)]"
  by (simp add: download_media_def Let_def split: fetch_outcome.splits)

lemma download_media_ok:
  "fst (download_media e url t st) = (fetch e (length (attempts st)) url t = Fetched)"
  by (simp add: download_media_def Let_def split: fetch_outcome.splits)

lemma download_media_stored:
  "stored (snd (download_media e url t st)) =
     (if fst (download_media e url t st) then stored st @ [t] else stored st)"
  by (simp add: download_media_def Let_def split: fetch_outcome.splits)

lemma download_media_frame:
  "downloaded_images (snd (download_media e url t st)) = downloaded_images st"
  "failed_posts (snd (download_media e url t st)) = failed_posts st"
  "dirs_made (snd (download_media e url t st)) = dirs_made st"
  "files_opened (snd (download_media e url t st)) = files_opened st"
  "metadata (snd (download_media e url t st)) = metadata st"
  "analysis (snd (download_media e url t st)) = analysis st"
  by (simp_all add: download_media_def Let_def split: fetch_outcome.splits)

lemma same_trace_download:
  "same_trace st st' \<Longrightarrow>
   same_trace (snd (download_media e url t st)) (snd (download_media (e\<lparr>fetch := f\<rparr>) url t st'))"
  by (simp add: same_trace_def download_media_attempts download_media_frame)

lemma same_step_handle_video:
  "same_trace st st' \<Longrightarrow>
   same_step (handle_video e u stem url st) (handle_video (e\<lparr>fetch := f\<rparr>) u stem url st')"
  using same_trace_download [of st st' e url _ f]
  by (simp add: same_step_def handle_video_def split: sum.splits)

lemma same_step_handle_image:
  assumes "same_trace st st'"
  shows "same_step (handle_image e u stem url st) (handle_image (e\<lparr>fetch := f\<rparr>) u stem url st')"
proof (cases "get_file_extension (urlparse_path e) url")
  case (Inl msg)
  with assms show ?thesis by (simp add: same_step_def handle_image_def)
next
  case (Inr ext)
  let ?t = "joinpath (images_dir u) (stem @ ext)"
  from same_trace_download [OF assms, of e url ?t f]
  have "same_trace (snd (download_media e url ?t st)) (snd (download_media (e\<lparr>fetch := f\<rparr>) url ?t st'))" .
  then show ?thesis using Inr
    by (simp add: same_step_def handle_image_def Let_def same_trace_def)
qed

lemma same_step_process_top:
  assumes "same_trace st st'"
  shows "same_step (process_top e u i p st) (process_top (e\<lparr>fetch := f\<rparr>) u i p st')"
proof (cases "truthy (videoUrl p)")
  case True
  from same_step_handle_video [OF assms, of e u "post_stem i" "subscript (videoUrl p)" f]
  show ?thesis using True
    by (auto simp: process_top_def same_step_def split: prod.splits option.splits)
next
  case False
  show ?thesis
  proof (cases "truthy (displayUrl p)")
    case True
    from same_step_handle_image [OF assms, of e u "post_stem i" "subscript (displayUrl p)" f]
    show ?thesis using True False by (simp add: process_top_def)
  next
    case d: False
    with False assms show ?thesis by (simp add: process_top_def same_step_def)
  qed
qed

lemma same_step_process_item:
  assumes "same_trace st st'"
  shows "same_step (process_item e u i j item st) (process_item (e\<lparr>fetch := f\<rparr>) u i j item st')"
  using same_step_handle_video [OF assms, of e u "carousel_stem i j" "subscript (item_videoUrl item)" f]
    same_step_handle_image [OF assms, of e u "carousel_stem i j" "subscript (item_displayUrl item)" f]
    assms
  by (simp add: process_item_def same_step_def)

lemma same_step_process_items:
  "same_trace st st' \<Longrightarrow>
   same_step (process_items e u i j items st) (process_items (e\<lparr>fetch := f\<rparr>) u i j items st')"
proof (induction items arbitrary: j st st')
  case Nil
  then show ?case by (simp add: same_step_def)
next
  case (Cons item items)
  from same_step_process_item [OF Cons.prems, of e u i j item f]
  have s: "same_step (process_item e u i j item st) (process_item (e\<lparr>fetch := f\<rparr>) u i j item st')" .
  obtain r a where ra: "process_item e u i j item st = (r, a)" by (cases "process_item e u i j item st")
  obtain r' a' where ra': "process_item (e\<lparr>fetch := f\<rparr>) u i j item st' = (r', a')"
    by (cases "process_item (e\<lparr>fetch := f\<rparr>) u i j item st'")
  from s ra ra' have rr: "r = r'" and aa: "same_trace a a'" by (simp_all add: same_step_def)
  show ?case
  proof (cases r)
    case None
    with ra ra' rr Cons.IH [OF aa, of "Suc j"] show ?thesis by auto
  next
    case (Some msg)
    with ra ra' rr aa show ?thesis by (auto simp: same_step_def)
  qed
qed

lemma same_step_process_post:
  assumes "same_trace st st'"
  shows "same_step (process_post e u i p st) (process_post (e\<lparr>fetch := f\<rparr>) u i p st')"
proof -
  from same_step_process_top [OF assms, of e u i p f]
  have s: "same_step (process_top e u i p st) (process_top (e\<lparr>fetch := f\<rparr>) u i p st')" .
  obtain r a where ra: "process_top e u i p st = (r, a)" by (cases "process_top e u i p st")
  obtain r' a' where ra': "process_top (e\<lparr>fetch := f\<rparr>) u i p st' = (r', a')"
    by (cases "process_top (e\<lparr>fetch := f\<rparr>) u i p st'")
  from s ra ra' have rr: "r = r'" and aa: "same_trace a a'" by (simp_all add: same_step_def)
  show ?thesis
  proof (cases r)
    case None
    have "same_step (process_carousel e u i p a) (process_carousel (e\<lparr>fetch := f\<rparr>) u i p a')"
      using aa same_step_process_items [OF aa, of e u i 1 _ f]
      by (simp add: process_carousel_def same_step_def split: option.splits)
    with None ra ra' rr show ?thesis by (auto simp: process_post_def)
  next
    case (Some msg)
    with ra ra' rr aa show ?thesis by (auto simp: process_post_def same_step_def)
  qed
qed

lemma same_trace_process_posts:
  "same_trace st st' \<Longrightarrow>
   same_trace (process_posts e u i ps st) (process_posts (e\<lparr>fetch := f\<rparr>) u i ps st')"
proof (induction ps arbitrary: i st st')
  case Nil
  then show ?case by simp
next
  case (Cons p ps)
  from same_step_process_post [OF Cons.prems, of e u i p f]
  have s: "same_step (process_post e u i p st) (process_post (e\<lparr>fetch := f\<rparr>) u i p st')" .
  obtain r a where ra: "process_post e u i p st = (r, a)" by (cases "process_post e u i p st")
  obtain r' a' where ra': "process_post (e\<lparr>fetch := f\<rparr>) u i p st' = (r', a')"
    by (cases "process_post (e\<lparr>fetch := f\<rparr>) u i p st'")
  from s ra ra' have rr: "r = r'" and aa: "same_trace a a'" by (simp_all add: same_step_def)
  show ?case
  proof (cases r)
    case None
    with ra ra' rr Cons.IH [OF aa, of "Suc i"] show ?thesis by auto
  next
    case (Some msg)
    from aa have "same_trace (a\<lparr>failed_posts := failed_posts a @ [(i, msg)]\<rparr>)
       (a'\<lparr>failed_posts := failed_posts a' @ [(i, msg)]\<rparr>)"
      by (simp add: same_trace_def)
    from Cons.IH [OF this, of "Suc i"] Some ra ra' rr show ?thesis by auto
  qed
qed

lemma mkdirs_fetch: "mkdirs (e\<lparr>fetch := f\<rparr>) ds st = mkdirs e ds st"
  by (induction ds arbitrary: st) (simp_all split: option.splits)

lemma create_download_directory_fetch:
  "create_download_directory (e\<lparr>fetch := f\<rparr>) u st = create_download_directory e u st"
  unfolding create_download_directory_def by (rule mkdirs_fetch)

lemma process_posts_fetch_attempts:
  "attempts (process_posts (e\<lparr>fetch := f\<rparr>) u i ps st) = attempts (process_posts e u i ps st)"
  using same_trace_process_posts [of st st e u i ps f] by (simp add: same_trace_def)

lemma process_posts_fetch_failed:
  "failed_posts (process_posts (e\<lparr>fetch := f\<rparr>) u i ps st) = failed_posts (process_posts e u i ps st)"
  using same_trace_process_posts [of st st e u i ps f] by (simp add: same_trace_def)

lemma run_attempts_fetch:
  "attempts (snd (scrape_and_analyze (e\<lparr>fetch := f\<rparr>) u l)) = attempts (snd (scrape_and_analyze e u l))"
  by (simp add: scrape_and_analyze_def Let_def create_download_directory_fetch
      process_posts_fetch_attempts split: prod.splits option.splits sum.splits)

lemma dirs_differ: "images_dir u \<noteq> videos_dir u"
  by (simp add: images_dir_def videos_dir_def joinpath_def path_parts_images path_parts_videos)

lemma butlast_save_path: "valid_ext ext \<Longrightarrow> butlast (save_path u k i c ext) = media_dir u k"
  by (cases k)
    (simp_all add: save_path_parts media_dir_def images_dir_def videos_dir_def joinpath_def
      path_parts_images path_parts_videos butlast_append)

lemma planned_mono: "planned u i n a \<Longrightarrow> n \<le> m \<Longrightarrow> planned u i m a"
  unfolding planned_def by (metis (no_types, lifting) order_less_le_trans)

lemma planned_next: "planned u i n a \<Longrightarrow> planned u (Suc i) 0 a"
  unfolding planned_def by (metis less_Suc_eq)

lemma run_inv_mono: "run_inv u i n st \<Longrightarrow> n \<le> m \<Longrightarrow> run_inv u i m st"
  unfolding run_inv_def list_all_iff using planned_mono by blast

lemma run_inv_next: "run_inv u i n st \<Longrightarrow> run_inv u (Suc i) 0 st"
  unfolding run_inv_def list_all_iff using planned_next by blast

lemma run_inv_failed:
  "run_inv u i n st \<Longrightarrow> run_inv u i n (st\<lparr>failed_posts := x\<rparr>)"
  by (simp add: run_inv_def)

lemma fresh_target:
  assumes inv: "run_inv u i (slot c) st" and v: "valid_ext ext"
  shows "save_path u k i c ext \<notin> snd ` set (attempts st)"
proof
  assume "save_path u k i c ext \<in> snd ` set (attempts st)"
  then obtain a where a: "a \<in> set (attempts st)" "snd a = save_path u k i c ext" by auto
  from inv a(1) have "planned u i (slot c) a" by (simp add: run_inv_def list_all_iff)
  then obtain k' i' c' ext' where p: "valid_ext ext'" "snd a = save_path u k' i' c' ext'"
    "i' < i \<or> (i' = i \<and> slot c' < slot c)"
    unfolding planned_def by blast
  from a(2) p(2) have "save_path u k i c ext = save_path u k' i' c' ext'" by simp
  from save_path_inj [OF v p(1) this] have "i = i'" "c = c'" by simp_all
  with p(3) show False by simp
qed

lemma download_inv:
  fixes k :: media_kind and e :: env
  assumes inv: "run_inv u i (slot c) st" and v: "valid_ext ext" and url: "url \<noteq> []"
  defines "t \<equiv> save_path u k i c ext"
  defines "r \<equiv> download_media e url t st"
  shows "list_all (planned u i (Suc (slot c))) (attempts (snd r))"
    and "distinct (map snd (attempts (snd r)))"
    and "distinct (stored (snd r))"
    and "set (stored (snd r)) \<subseteq> snd ` set (attempts (snd r))"
    and "stored (snd r) = (if fst r then stored st @ [t] else stored st)"
    and "downloaded_images (snd r) = downloaded_images st"
proof -
  have fresh: "t \<notin> snd ` set (attempts st)" unfolding t_def using inv v by (rule fresh_target)
  have att: "attempts (snd r) = attempts st @ [(url, t)]"
    unfolding r_def by (rule download_media_attempts)
  have st: "stored (snd r) = (if fst r then stored st @ [t] else stored st)"
    unfolding r_def by (rule download_media_stored)
  have new: "planned u i (Suc (slot c)) (url, t)"
    unfolding planned_def t_def using v url by auto
  have old: "list_all (planned u i (Suc (slot c))) (attempts st)"
    using inv planned_mono [of u i "slot c" _ "Suc (slot c)"]
    by (simp add: run_inv_def list_all_iff)
  show "list_all (planned u i (Suc (slot c))) (attempts (snd r))" using att old new by simp
  show "distinct (map snd (attempts (snd r)))" using att inv fresh by (simp add: run_inv_def)
  have sub: "set (stored st) \<subseteq> snd ` set (attempts st)" using inv by (simp add: run_inv_def)
  with fresh have "t \<notin> set (stored st)" by blast
  then show "distinct (stored (snd r))" using st inv by (simp add: run_inv_def)
  show "set (stored (snd r)) \<subseteq> snd ` set (attempts (snd r))" using st att sub by auto
  show "stored (snd r) = (if fst r then stored st @ [t] else stored st)" by (rule st)
  show "downloaded_images (snd r) = downloaded_images st"
    unfolding r_def by (rule download_media_frame)
qed

lemma handle_video_inv:
  assumes inv: "run_inv u i (slot c) st" and url: "url \<noteq> []"
  shows "run_inv u i (Suc (slot c)) (snd (handle_video e u (media_stem i c) url st))"
proof (cases "get_file_extension (urlparse_path e) url")
  case (Inl msg)
  then show ?thesis using run_inv_mono [OF inv, of "Suc (slot c)"] by (simp add: handle_video_def)
next
  case (Inr ext)
  then have v: "valid_ext ext" by (rule get_file_extension_valid)
  let ?t = "save_path u Video i c ext"
  let ?r = "download_media e url ?t st"
  have tgt: "joinpath (videos_dir u) (media_stem i c @ ext) = ?t"
    by (simp add: save_path_def media_dir_def)
  have res: "snd (handle_video e u (media_stem i c) url st) = snd ?r"
    using Inr by (simp add: handle_video_def tgt)
  note d = download_inv [where k = Video and e = e, OF inv v url]
  have "butlast ?t \<noteq> images_dir u"
    using butlast_save_path [OF v, of u Video i c] dirs_differ [of u] by (simp add: media_dir_def)
  then have "filter (\<lambda>p. butlast p = images_dir u) (stored (snd ?r)) =
     filter (\<lambda>p. butlast p = images_dir u) (stored st)"
    using d(5) by simp
  with d(6) inv have "downloaded_images (snd ?r) = filter (\<lambda>p. butlast p = images_dir u) (stored (snd ?r))"
    by (simp add: run_inv_def)
  with d(1-4) show ?thesis unfolding res run_inv_def by simp
qed

lemma handle_image_inv:
  assumes inv: "run_inv u i (slot c) st" and url: "url \<noteq> []"
  shows "run_inv u i (Suc (slot c)) (snd (handle_image e u (media_stem i c) url st))"
proof (cases "get_file_extension (urlparse_path e) url")
  case (Inl msg)
  then show ?thesis using run_inv_mono [OF inv, of "Suc (slot c)"] by (simp add: handle_image_def)
next
  case (Inr ext)
  then have v: "valid_ext ext" by (rule get_file_extension_valid)
  let ?t = "save_path u Image i c ext"
  let ?r = "download_media e url ?t st"
  let ?s = "snd (handle_image e u (media_stem i c) url st)"
  have tgt: "joinpath (images_dir u) (media_stem i c @ ext) = ?t"
    by (simp add: save_path_def media_dir_def)
  have res: "?s = (if fst ?r then (snd ?r)\<lparr>downloaded_images := downloaded_images (snd ?r) @ [?t]\<rparr>
      else snd ?r)"
    using Inr by (simp add: handle_image_def tgt Let_def)
  note d = download_inv [where k = Image and e = e, OF inv v url]
  have bl: "butlast ?t = images_dir u"
    using butlast_save_path [OF v, of u Image i c] by (simp add: media_dir_def)
  have old: "downloaded_images st = filter (\<lambda>p. butlast p = images_dir u) (stored st)"
    using inv by (simp add: run_inv_def)
  have a: "attempts ?s = attempts (snd ?r)" and b: "stored ?s = stored (snd ?r)"
    using res by simp_all
  have c: "downloaded_images ?s = filter (\<lambda>p. butlast p = images_dir u) (stored ?s)"
    using res d(5,6) bl old by (cases "fst ?r") simp_all
  from d(1-4) a b c show ?thesis unfolding run_inv_def by simp
qed

lemma truthy_subscript: "truthy v \<Longrightarrow> subscript v \<noteq> []"
  by (cases v) (simp_all add: truthy_def subscript_def)

lemma process_top_video:
  "truthy (videoUrl p) \<Longrightarrow>
   process_top e u i p st = handle_video e u (post_stem i) (subscript (videoUrl p)) st"
  by (simp add: process_top_def split: prod.splits option.splits)

lemma process_top_image:
  "\<not> truthy (videoUrl p) \<Longrightarrow> truthy (displayUrl p) \<Longrightarrow>
   process_top e u i p st = handle_image e u (post_stem i) (subscript (displayUrl p)) st"
  by (simp add: process_top_def)

lemma process_top_nothing:
  "\<not> truthy (videoUrl p) \<Longrightarrow> \<not> truthy (displayUrl p) \<Longrightarrow> process_top e u i p st = (None, st)"
  by (simp add: process_top_def)

lemma process_top_inv:
  assumes inv: "run_inv u i 0 st"
  shows "run_inv u i 1 (snd (process_top e u i p st))"
proof -
  have s0: "slot None = 0" by (simp add: slot_def)
  have stem: "post_stem i = media_stem i None" by (simp add: media_stem_def)
  show ?thesis
  proof (cases "truthy (videoUrl p)")
    case True
    from handle_video_inv [of u i None st "subscript (videoUrl p)" e] inv truthy_subscript [OF True]
    have "run_inv u i 1 (snd (handle_video e u (post_stem i) (subscript (videoUrl p)) st))"
      by (simp add: s0 stem)
    then show ?thesis using True by (simp add: process_top_video)
  next
    case False
    show ?thesis
    proof (cases "truthy (displayUrl p)")
      case True
      from handle_image_inv [of u i None st "subscript (displayUrl p)" e] inv truthy_subscript [OF True]
      have "run_inv u i 1 (snd (handle_image e u (post_stem i) (subscript (displayUrl p)) st))"
        by (simp add: s0 stem)
      then show ?thesis using True False by (simp add: process_top_image)
    next
      case d: False
      with False run_inv_mono [OF inv, of 1] show ?thesis by (simp add: process_top_nothing)
    qed
  qed
qed

lemma process_item_inv:
  assumes inv: "run_inv u i (Suc j) st"
  shows "run_inv u i (Suc (Suc j)) (snd (process_item e u i j item st))"
proof -
  have s: "slot (Some j) = Suc j" by (simp add: slot_def)
  have stem: "carousel_stem i j = media_stem i (Some j)" by (simp add: media_stem_def)
  have v: "run_inv u i (Suc (Suc j))
      (snd (handle_video e u (carousel_stem i j) (subscript (item_videoUrl item)) st))"
    if "truthy (item_videoUrl item)"
    using handle_video_inv [of u i "Some j" st "subscript (item_videoUrl item)" e] inv
      truthy_subscript [OF that] by (simp add: s stem)
  have d: "run_inv u i (Suc (Suc j))
      (snd (handle_image e u (carousel_stem i j) (subscript (item_displayUrl item)) st))"
    if "truthy (item_displayUrl item)"
    using handle_image_inv [of u i "Some j" st "subscript (item_displayUrl item)" e] inv
      truthy_subscript [OF that] by (simp add: s stem)
  show ?thesis using v d run_inv_mono [OF inv, of "Suc (Suc j)"]
    by (simp add: process_item_def)
qed

lemma process_items_inv:
  "run_inv u i (Suc j) st \<Longrightarrow> \<exists>m. run_inv u i m (snd (process_items e u i j items st))"
proof (induction items arbitrary: j st)
  case Nil
  then show ?case by auto
next
  case (Cons item items)
  obtain r a where ra: "process_item e u i j item st = (r, a)" by (cases "process_item e u i j item st")
  from process_item_inv [OF Cons.prems, of e item] ra
  have a: "run_inv u i (Suc (Suc j)) a" by simp
  show ?case
  proof (cases r)
    case None
    with ra Cons.IH [OF a] show ?thesis by simp
  next
    case (Some msg)
    with ra a show ?thesis by auto
  qed
qed

lemma process_post_inv:
  assumes inv: "run_inv u i 0 st"
  shows "run_inv u (Suc i) 0 (snd (process_post e u i p st))"
proof -
  obtain r a where ra: "process_top e u i p st = (r, a)" by (cases "process_top e u i p st")
  from process_top_inv [OF inv, of e p] ra have a: "run_inv u i 1 a" by simp
  then have a2: "run_inv u i (Suc 1) a" by (rule run_inv_mono) simp
  have "\<exists>m. run_inv u i m (snd (process_post e u i p st))"
  proof (cases r)
    case None
    show ?thesis
    proof (cases "sidecarItems p")
      case n: None
      with None ra a show ?thesis by (auto simp: process_post_def process_carousel_def)
    next
      case (Some items)
      with None ra process_items_inv [OF a2, of e items] show ?thesis
        by (simp add: process_post_def process_carousel_def)
    qed
  next
    case (Some msg)
    with ra a show ?thesis by (auto simp: process_post_def)
  qed
  then show ?thesis using run_inv_next by blast
qed

lemma process_posts_inv:
  "run_inv u i 0 st \<Longrightarrow> \<exists>n. run_inv u n 0 (process_posts e u i ps st)"
proof (induction ps arbitrary: i st)
  case Nil
  then show ?case by auto
next
  case (Cons p ps)
  obtain r a where ra: "process_post e u i p st = (r, a)" by (cases "process_post e u i p st")
  from process_post_inv [OF Cons.prems, of e p] ra have a: "run_inv u (Suc i) 0 a" by simp
  show ?case
  proof (cases r)
    case None
    with ra Cons.IH [OF a] show ?thesis by simp
  next
    case (Some msg)
    from a have "run_inv u (Suc i) 0 (a\<lparr>failed_posts := failed_posts a @ [(i, msg)]\<rparr>)"
      by (rule run_inv_failed)
    from Cons.IH [OF this] Some ra show ?thesis by simp
  qed
qed

lemma run_inv_start:
  "attempts st = [] \<Longrightarrow> stored st = [] \<Longrightarrow> downloaded_images st = [] \<Longrightarrow> run_inv u i 0 st"
  by (simp add: run_inv_def)

lemma mkdirs_frame:
  "attempts (snd (mkdirs e ds st)) = attempts st \<and>
   stored (snd (mkdirs e ds st)) = stored st \<and>
   downloaded_images (snd (mkdirs e ds st)) = downloaded_images st \<and>
   files_opened (snd (mkdirs e ds st)) = files_opened st \<and>
   metadata (snd (mkdirs e ds st)) = metadata st \<and>
   analysis (snd (mkdirs e ds st)) = analysis st"
  by (induction ds arbitrary: st) (simp_all split: option.splits)

lemma create_download_directory_frame:
  "attempts (snd (create_download_directory e u initial_state)) = [] \<and>
   stored (snd (create_download_directory e u initial_state)) = [] \<and>
   downloaded_images (snd (create_download_directory e u initial_state)) = [] \<and>
   files_opened (snd (create_download_directory e u initial_state)) = [] \<and>
   metadata (snd (create_download_directory e u initial_state)) = None \<and>
   analysis (snd (create_download_directory e u initial_state)) = None"
proof -
  have i: "attempts initial_state = []" "stored initial_state = []"
    "downloaded_images initial_state = []" "files_opened initial_state = []"
    "metadata initial_state = None" "analysis initial_state = None"
    by (simp_all add: initial_state_def)
  show ?thesis
    unfolding create_download_directory_def
    using mkdirs_frame [of e "[base_dir u, images_dir u, videos_dir u]" initial_state]
    by (simp add: i del: mkdirs.simps)
qed

lemma run_success:
  assumes "fst (scrape_and_analyze e u l) = Inr (Success b n m mp ap)"
  shows "\<exists>did content posts.
     actor_call e (make_run_input u l) = Inr did \<and>
     requests_get e (dataset_url did) = Inr content \<and>
     json_loads e content = Inr posts \<and>
     n = length posts \<and>
     m = length (analyze_images e (downloaded_images (loop_end e u posts))) \<and>
     snd (scrape_and_analyze e u l) =
       (loop_end e u posts)
         \<lparr>files_opened := files_opened (loop_end e u posts) @
            [joinpath (base_dir u) ''analysis_results.json''],
          analysis := Some (analyze_images e (downloaded_images (loop_end e u posts)))\<rparr>"
proof -
  obtain r0 st0 where c: "create_download_directory e u initial_state = (r0, st0)"
    by (cases "create_download_directory e u initial_state")
  from create_download_directory_frame [of e u] c have fo: "files_opened st0 = []" by simp
  from assms c fo show ?thesis
    by (auto simp: scrape_and_analyze_def Let_def loop_end_def loop_start_def
        split: option.splits sum.splits)
qed










lemma analyze_images_length: "length (analyze_images e ps) = length ps"
  by (simp add: analyze_images_eq)


lemma handle_video_attempts:
  "attempts (snd (handle_video e u stem url st)) =
     (case get_file_extension (urlparse_path e) url of
        Inl msg \<Rightarrow> attempts st
      | Inr ext \<Rightarrow> attempts st @ [(url, joinpath (videos_dir u) (stem @ ext))])"
  by (simp add: handle_video_def download_media_attempts split: sum.splits)

lemma handle_image_attempts:
  "attempts (snd (handle_image e u stem url st)) =
     (case get_file_extension (urlparse_path e) url of
        Inl msg \<Rightarrow> attempts st
      | Inr ext \<Rightarrow> attempts st @ [(url, joinpath (images_dir u) (stem @ ext))])"
  by (simp add: handle_image_def download_media_attempts Let_def split: sum.splits)


lemma string_of_nat_small: "n < 10 \<Longrightarrow> string_of_nat n = [digit_char n]"
  by (simp add: string_of_nat.simps)

lemma handle_video_attempts_le:
  "length (attempts (snd (handle_video e u stem url st))) \<le> Suc (length (attempts st))"
  by (simp add: handle_video_attempts split: sum.splits)

lemma handle_image_attempts_le:
  "length (attempts (snd (handle_image e u stem url st))) \<le> Suc (length (attempts st))"
  by (simp add: handle_image_attempts split: sum.splits)

lemma loop_end_inv: "\<exists>n. run_inv u n 0 (loop_end e u posts)"
proof -
  have "run_inv u 1 0 (loop_start e u posts)"
    using create_download_directory_frame [of e u]
    by (intro run_inv_start) (simp_all add: loop_start_def)
  then show ?thesis unfolding loop_end_def by (rule process_posts_inv)
qed

lemma run_final_state:
  "(attempts (snd (scrape_and_analyze e u l)) = [] \<and>
    stored (snd (scrape_and_analyze e u l)) = [] \<and>
    downloaded_images (snd (scrape_and_analyze e u l)) = []) \<or>
   (\<exists>posts.
      attempts (snd (scrape_and_analyze e u l)) = attempts (loop_end e u posts) \<and>
      stored (snd (scrape_and_analyze e u l)) = stored (loop_end e u posts) \<and>
      downloaded_images (snd (scrape_and_analyze e u l)) = downloaded_images (loop_end e u posts))"
proof -
  obtain r0 st0 where c: "create_download_directory e u initial_state = (r0, st0)"
    by (cases "create_download_directory e u initial_state")
  from create_download_directory_frame [of e u] c
  have f: "files_opened st0 = []" "attempts st0 = []" "stored st0 = []" "downloaded_images st0 = []"
    by simp_all
  show ?thesis
  proof (cases r0)
    case (Some msg)
    with c f show ?thesis by (simp add: scrape_and_analyze_def)
  next
    case None
    show ?thesis
    proof (cases "actor_call e (make_run_input u l)")
      case (Inl msg)
      with c f None show ?thesis by (simp add: scrape_and_analyze_def)
    next
      case a: (Inr did)
      show ?thesis
      proof (cases "requests_get e (dataset_url did)")
        case (Inl msg)
        with c f None a show ?thesis by (simp add: scrape_and_analyze_def)
      next
        case g: (Inr content)
        show ?thesis
        proof (cases "open_write e (joinpath (base_dir u) ''metadata.json'')")
          case (Some msg)
          with c f None a g show ?thesis by (simp add: scrape_and_analyze_def)
        next
          case o: None
          show ?thesis
          proof (cases "json_loads e content")
            case (Inl msg)
            with c f None a g o show ?thesis by (simp add: scrape_and_analyze_def)
          next
            case j: (Inr posts)
            show ?thesis
            proof (cases "json_dump e (joinpath (base_dir u) ''metadata.json'')")
              case (Some msg)
              with c f None a g o j show ?thesis by (simp add: scrape_and_analyze_def)
            next
              case d: None
              have le: "loop_end e u posts =
                process_posts e u 1 posts
                  (st0\<lparr>files_opened := files_opened st0 @ [joinpath (base_dir u) ''metadata.json''],
                       metadata := Some posts\<rparr>)"
                using c f by (simp add: loop_end_def loop_start_def)
              have "attempts (snd (scrape_and_analyze e u l)) = attempts (loop_end e u posts) \<and>
                stored (snd (scrape_and_analyze e u l)) = stored (loop_end e u posts) \<and>
                downloaded_images (snd (scrape_and_analyze e u l)) = downloaded_images (loop_end e u posts)"
                unfolding le using c None a g o j d
                by (simp add: scrape_and_analyze_def Let_def split: option.splits)
              then show ?thesis by blast
            qed
          qed
        qed
      qed
    qed
  qed
qed

lemma run_inv_final:
  "\<exists>n. list_all (planned u n 0) (attempts (snd (scrape_and_analyze e u l))) \<and>
     distinct (stored (snd (scrape_and_analyze e u l))) \<and>
     set (stored (snd (scrape_and_analyze e u l))) \<subseteq> snd ` set (attempts (snd (scrape_and_analyze e u l))) \<and>
     downloaded_images (snd (scrape_and_analyze e u l)) =
       filter (\<lambda>p. butlast p = images_dir u) (stored (snd (scrape_and_analyze e u l)))"
  using run_final_state [of e u l]
proof
  assume "attempts (snd (scrape_and_analyze e u l)) = [] \<and>
    stored (snd (scrape_and_analyze e u l)) = [] \<and>
    downloaded_images (snd (scrape_and_analyze e u l)) = []"
  then show ?thesis by simp
next
  assume "\<exists>posts.
      attempts (snd (scrape_and_analyze e u l)) = attempts (loop_end e u posts) \<and>
      stored (snd (scrape_and_analyze e u l)) = stored (loop_end e u posts) \<and>
      downloaded_images (snd (scrape_and_analyze e u l)) = downloaded_images (loop_end e u posts)"
  then obtain posts where p:
      "attempts (snd (scrape_and_analyze e u l)) = attempts (loop_end e u posts)"
      "stored (snd (scrape_and_analyze e u l)) = stored (loop_end e u posts)"
      "downloaded_images (snd (scrape_and_analyze e u l)) = downloaded_images (loop_end e u posts)"
    by blast
  from loop_end_inv [of u e posts] obtain n where "run_inv u n 0 (loop_end e u posts)" by blast
  then show ?thesis unfolding p run_inv_def by blast
qed

lemma run_attempts_nonempty_url:
  "list_all (\<lambda>a. fst a \<noteq> []) (attempts (snd (scrape_and_analyze e u l)))"
proof -
  from run_inv_final [of u e l] obtain n where
    "list_all (planned u n 0) (attempts (snd (scrape_and_analyze e u l)))" by blast
  then show ?thesis by (simp add: list_all_iff planned_def)
qed










lemma analyze_images_paths: "map image_path (analyze_images e ps) = map path_str ps"
  by (rule nth_equalityI) (simp_all add: analyze_images_eq analyze_one_image_path)

lemma get_file_extension_plain:
  "up url = Inr url \<Longrightarrow> get_file_extension up url = get_file_extension Inr url"
  by (simp add: get_file_extension_def)

lemma download_media_fetched:
  "fetch e (length (attempts st)) url t = Fetched \<Longrightarrow>
   download_media e url t st =
     (True, st\<lparr>attempts := attempts st @ [(url, t)], stored := stored st @ [t]\<rparr>)"
  by (simp add: download_media_def)

lemma handle_image_fetched:
  assumes "get_file_extension (urlparse_path e) url = Inr ext"
    and "\<forall>k url p. fetch e k url p = Fetched"
  shows "handle_image e u stem url st =
     (None, st\<lparr>attempts := attempts st @ [(url, joinpath (images_dir u) (stem @ ext))],
               stored := stored st @ [joinpath (images_dir u) (stem @ ext)],
               downloaded_images := downloaded_images st @ [joinpath (images_dir u) (stem @ ext)]\<rparr>)"
  using assms by (simp add: handle_image_def download_media_fetched Let_def)

lemma handle_video_fetched:
  assumes "get_file_extension (urlparse_path e) url = Inr ext"
    and "\<forall>k url p. fetch e k url p = Fetched"
  shows "handle_video e u stem url st =
     (None, st\<lparr>attempts := attempts st @ [(url, joinpath (videos_dir u) (stem @ ext))],
               stored := stored st @ [joinpath (videos_dir u) (stem @ ext)]\<rparr>)"
  using assms by (simp add: handle_video_def download_media_fetched)

lemma mkdirs_all_ok: "\<forall>d. mkdir e d = None \<Longrightarrow> fst (mkdirs e ds st) = None"
  by (induction ds arbitrary: st) simp_all

lemma scenario_targets:
  "joinpath (images_dir u) (post_stem 1 @ ''.jpg'') = base_dir u @ [''images'', ''post_1.jpg'']"
  "joinpath (videos_dir u) (post_stem 2 @ ''.mp4'') = base_dir u @ [''videos'', ''post_2.mp4'']"
  "joinpath (images_dir u) (carousel_stem 2 1 @ ''.jpg'') =
     base_dir u @ [''images'', ''post_2_carousel_1.jpg'']"
  "joinpath (videos_dir u) (carousel_stem 2 2 @ ''.mp4'') =
     base_dir u @ [''videos'', ''post_2_carousel_2.mp4'']"
proof -
  have v: "valid_ext ''.jpg''" "valid_ext ''.mp4''" by (simp_all add: valid_ext_def)
  have n: "media_stem 1 None @ ''.jpg'' = ''post_1.jpg''"
    "media_stem 2 None @ ''.mp4'' = ''post_2.mp4''"
    "media_stem 2 (Some 1) @ ''.jpg'' = ''post_2_carousel_1.jpg''"
    "media_stem 2 (Some 2) @ ''.mp4'' = ''post_2_carousel_2.mp4''"
    by code_simp+
  show "joinpath (images_dir u) (post_stem 1 @ ''.jpg'') = base_dir u @ [''images'', ''post_1.jpg'']"
    unfolding save_path_top_image using save_path_parts [OF v(1), of u Image 1 None] n(1) by simp
  show "joinpath (videos_dir u) (post_stem 2 @ ''.mp4'') = base_dir u @ [''videos'', ''post_2.mp4'']"
    unfolding save_path_top_video using save_path_parts [OF v(2), of u Video 2 None] n(2) by simp
  show "joinpath (images_dir u) (carousel_stem 2 1 @ ''.jpg'') =
     base_dir u @ [''images'', ''post_2_carousel_1.jpg'']"
    unfolding save_path_carousel_image using save_path_parts [OF v(1), of u Image 2 "Some 1"] n(3)
    by simp
  show "joinpath (videos_dir u) (carousel_stem 2 2 @ ''.mp4'') =
     base_dir u @ [''videos'', ''post_2_carousel_2.mp4'']"
    unfolding save_path_carousel_video using save_path_parts [OF v(2), of u Video 2 "Some 2"] n(4)
    by simp
qed

lemma scenario_extensions:
  "get_file_extension Inr ''a.jpg'' = Inr ''.jpg''"
  "get_file_extension Inr ''b.mp4'' = Inr ''.mp4''"
  "get_file_extension Inr ''c.jpg'' = Inr ''.jpg''"
  "get_file_extension Inr ''d.mp4'' = Inr ''.mp4''"
  by code_simp+

lemma scenario_loop:
  assumes f: "\<forall>k url p. fetch e k url p = Fetched"
    and u: "urlparse_path e ''a.jpg'' = Inr ''a.jpg''" "urlparse_path e ''b.mp4'' = Inr ''b.mp4''"
      "urlparse_path e ''c.jpg'' = Inr ''c.jpg''" "urlparse_path e ''d.mp4'' = Inr ''d.mp4''"
  shows "process_posts e username 1 scenario_posts st =
    st\<lparr>attempts := attempts st @
          [(''a.jpg'', base_dir username @ [''images'', ''post_1.jpg'']),
           (''b.mp4'', base_dir username @ [''videos'', ''post_2.mp4'']),
           (''c.jpg'', base_dir username @ [''images'', ''post_2_carousel_1.jpg'']),
           (''d.mp4'', base_dir username @ [''videos'', ''post_2_carousel_2.mp4''])],
        stored := stored st @
          [base_dir username @ [''images'', ''post_1.jpg''],
           base_dir username @ [''videos'', ''post_2.mp4''],
           base_dir username @ [''images'', ''post_2_carousel_1.jpg''],
           base_dir username @ [''videos'', ''post_2_carousel_2.mp4'']],
        downloaded_images := downloaded_images st @
          [base_dir username @ [''images'', ''post_1.jpg''],
           base_dir username @ [''images'', ''post_2_carousel_1.jpg'']]\<rparr>"
proof -
  have xa: "get_file_extension (urlparse_path e) ''a.jpg'' = Inr ''.jpg''"
    using get_file_extension_plain [of "urlparse_path e" "''a.jpg''"] u(1)
    by (simp add: scenario_extensions)
  have xb: "get_file_extension (urlparse_path e) ''b.mp4'' = Inr ''.mp4''"
    using get_file_extension_plain [of "urlparse_path e" "''b.mp4''"] u(2)
    by (simp add: scenario_extensions)
  have xc: "get_file_extension (urlparse_path e) ''c.jpg'' = Inr ''.jpg''"
    using get_file_extension_plain [of "urlparse_path e" "''c.jpg''"] u(3)
    by (simp add: scenario_extensions)
  have xd: "get_file_extension (urlparse_path e) ''d.mp4'' = Inr ''.mp4''"
    using get_file_extension_plain [of "urlparse_path e" "''d.mp4''"] u(4)
    by (simp add: scenario_extensions)
  note hi = handle_image_fetched [OF _ f] and hv = handle_video_fetched [OF _ f]
  note tg = scenario_targets scenario_targets [unfolded One_nat_def]
  have p1: "process_post e username 1
      \<lparr>videoUrl = None, displayUrl = Some ''a.jpg'', sidecarItems = None\<rparr> s =
      (None, s\<lparr>attempts := attempts s @ [(''a.jpg'', base_dir username @ [''images'', ''post_1.jpg''])],
               stored := stored s @ [base_dir username @ [''images'', ''post_1.jpg'']],
               downloaded_images := downloaded_images s @
                 [base_dir username @ [''images'', ''post_1.jpg'']]\<rparr>)" for s
    by (simp add: process_post_def process_top_def process_carousel_def truthy_def subscript_def
        hi [OF xa] tg)
  have t2: "process_top e username 2
      \<lparr>videoUrl = Some ''b.mp4'', displayUrl = None,
       sidecarItems = Some [\<lparr>item_videoUrl = None, item_displayUrl = Some ''c.jpg''\<rparr>,
                            \<lparr>item_videoUrl = Some ''d.mp4'', item_displayUrl = None\<rparr>]\<rparr> s =
      (None, s\<lparr>attempts := attempts s @ [(''b.mp4'', base_dir username @ [''videos'', ''post_2.mp4''])],
               stored := stored s @ [base_dir username @ [''videos'', ''post_2.mp4'']]\<rparr>)" for s
    by (simp add: process_top_def truthy_def subscript_def hv [OF xb] tg)
  have i1: "process_item e username 2 1 \<lparr>item_videoUrl = None, item_displayUrl = Some ''c.jpg''\<rparr> s =
      (None, s\<lparr>attempts := attempts s @
                 [(''c.jpg'', base_dir username @ [''images'', ''post_2_carousel_1.jpg''])],
               stored := stored s @ [base_dir username @ [''images'', ''post_2_carousel_1.jpg'']],
               downloaded_images := downloaded_images s @
                 [base_dir username @ [''images'', ''post_2_carousel_1.jpg'']]\<rparr>)" for s
    by (simp add: process_item_def truthy_def subscript_def hi [OF xc] tg)
  have i2: "process_item e username 2 2 \<lparr>item_videoUrl = Some ''d.mp4'', item_displayUrl = None\<rparr> s =
      (None, s\<lparr>attempts := attempts s @
                 [(''d.mp4'', base_dir username @ [''videos'', ''post_2_carousel_2.mp4''])],
               stored := stored s @ [base_dir username @ [''videos'', ''post_2_carousel_2.mp4'']]\<rparr>)"
    for s
    by (simp add: process_item_def truthy_def subscript_def hv [OF xd] tg)
  have s12: "Suc (Suc 0) = 2" by simp
  have p2: "process_post e username 2
      \<lparr>videoUrl = Some ''b.mp4'', displayUrl = None,
       sidecarItems = Some [\<lparr>item_videoUrl = None, item_displayUrl = Some ''c.jpg''\<rparr>,
                            \<lparr>item_videoUrl = Some ''d.mp4'', item_displayUrl = None\<rparr>]\<rparr> s =
      (None, s\<lparr>attempts := attempts s @
                 [(''b.mp4'', base_dir username @ [''videos'', ''post_2.mp4'']),
                  (''c.jpg'', base_dir username @ [''images'', ''post_2_carousel_1.jpg'']),
                  (''d.mp4'', base_dir username @ [''videos'', ''post_2_carousel_2.mp4''])],
               stored := stored s @
                 [base_dir username @ [''videos'', ''post_2.mp4''],
                  base_dir username @ [''images'', ''post_2_carousel_1.jpg''],
                  base_dir username @ [''videos'', ''post_2_carousel_2.mp4'']],
               downloaded_images := downloaded_images s @
                 [base_dir username @ [''images'', ''post_2_carousel_1.jpg'']]\<rparr>)" for s
    unfolding process_post_def t2 by (simp add: process_carousel_def i1 [unfolded One_nat_def] s12 i2)
  show ?thesis
    unfolding scenario_posts_def by (simp add: p1 [unfolded One_nat_def] s12 p2)
qed

lemma get_file_extension_Inl:
  "(get_file_extension up url = Inl msg) = (up url = Inl msg)"
  by (cases "up url") (simp_all add: get_file_extension_def Let_def)


lemma handle_video_ok:
  "get_file_extension (urlparse_path e) url = Inr ext \<Longrightarrow>
   fst (handle_video e u stem url st) = None \<and>
   attempts (snd (handle_video e u stem url st)) =
     attempts st @ [(url, joinpath (videos_dir u) (stem @ ext))] \<and>
   downloaded_images (snd (handle_video e u stem url st)) = downloaded_images st"
  by (simp add: handle_video_def download_media_attempts download_media_frame)

lemma handle_video_raises:
  "urlparse_path e url = Inl msg \<Longrightarrow> handle_video e u stem url st = (Some msg, st)"
  by (simp add: handle_video_def get_file_extension_def)

lemma handle_image_ok:
  "get_file_extension (urlparse_path e) url = Inr ext \<Longrightarrow>
   fst (handle_image e u stem url st) = None \<and>
   attempts (snd (handle_image e u stem url st)) =
     attempts st @ [(url, joinpath (images_dir u) (stem @ ext))]"
  by (simp add: handle_image_def download_media_attempts Let_def)

lemma handle_image_raises:
  "urlparse_path e url = Inl msg \<Longrightarrow> handle_image e u stem url st = (Some msg, st)"
  by (simp add: handle_image_def get_file_extension_def)

section \<open>The claims\<close>




text \<open>
  C2, as the code has it. The body of the carousel loop, for an item the loop reaches:
  if the item has a video URL and \<open>urlparse\<close> accepts it, exactly one download is
  attempted, the video to \<open>videos/post_{i}_carousel_{j}{ext}\<close>, and nothing is appended to
  \<open>downloaded_images\<close>; else if it has a display URL and \<open>urlparse\<close> accepts it, exactly one,
  the image to \<open>images/post_{i}_carousel_{j}{ext}\<close>; if it has neither, nothing happens.
  When \<open>urlparse\<close> raises on the chosen URL the body raises with nothing attempted. In
  every case at most one download is attempted, and the body, which tests the image case
  first, agrees with the video-first rule of the specification. The loop goes on to the
  next item, with the next index, when the body ran to its end, and leaves the remaining
  items of the post out when the body raised.
\<close>

theorem carousel_item_video_first:
  "(truthy (item_videoUrl item) \<longrightarrow>
      (\<forall>ext. get_file_extension (urlparse_path e) (subscript (item_videoUrl item)) = Inr ext \<longrightarrow>
         fst (process_item e username i j item st) = None \<and>
         attempts (snd (process_item e username i j item st)) =
           attempts st @ [(subscript (item_videoUrl item),
                           joinpath (videos_dir username) (carousel_stem i j @ ext))] \<and>
         downloaded_images (snd (process_item e username i j item st)) = downloaded_images st) \<and>
      (\<forall>msg. urlparse_path e (subscript (item_videoUrl item)) = Inl msg \<longrightarrow>
         process_item e username i j item st = (Some msg, st))) \<and>
   (\<not> truthy (item_videoUrl item) \<and> truthy (item_displayUrl item) \<longrightarrow>
      (\<forall>ext. get_file_extension (urlparse_path e) (subscript (item_displayUrl item)) = Inr ext \<longrightarrow>
         fst (process_item e username i j item st) = None \<and>
         attempts (snd (process_item e username i j item st)) =
           attempts st @ [(subscript (item_displayUrl item),
                           joinpath (images_dir username) (carousel_stem i j @ ext))]) \<and>
      (\<forall>msg. urlparse_path e (subscript (item_displayUrl item)) = Inl msg \<longrightarrow>
         process_item e username i j item st = (Some msg, st))) \<and>
   (\<not> truthy (item_videoUrl item) \<and> \<not> truthy (item_displayUrl item) \<longrightarrow>
      process_item e username i j item st = (None, st)) \<and>
   length (attempts (snd (process_item e username i j item st))) \<le> Suc (length (attempts st)) \<and>
   process_item e username i j item st = process_item_video_first e username i j item st \<and>
   (fst (process_item e username i j item st) = None \<longrightarrow>
      process_items e username i j (item # rest) st =
        process_items e username i (Suc j) rest (snd (process_item e username i j item st))) \<and>
   (\<forall>msg. fst (process_item e username i j item st) = Some msg \<longrightarrow>
      process_items e username i j (item # rest) st =
        (Some msg, snd (process_item e username i j item st)))"
proof -
  let ?v = "subscript (item_videoUrl item)"
  let ?d = "subscript (item_displayUrl item)"
  have pv: "process_item e username i j item st = handle_video e username (carousel_stem i j) ?v st"
    if "truthy (item_videoUrl item)" using that by (simp add: process_item_def)
  have pd: "process_item e username i j item st = handle_image e username (carousel_stem i j) ?d st"
    if "\<not> truthy (item_videoUrl item)" "truthy (item_displayUrl item)"
    using that by (simp add: process_item_def)
  have c1: "truthy (item_videoUrl item) \<longrightarrow>
      (\<forall>ext. get_file_extension (urlparse_path e) ?v = Inr ext \<longrightarrow>
         fst (process_item e username i j item st) = None \<and>
         attempts (snd (process_item e username i j item st)) =
           attempts st @ [(?v, joinpath (videos_dir username) (carousel_stem i j @ ext))] \<and>
         downloaded_images (snd (process_item e username i j item st)) = downloaded_images st) \<and>
      (\<forall>msg. urlparse_path e ?v = Inl msg \<longrightarrow>
         process_item e username i j item st = (Some msg, st))"
  proof
    assume t: "truthy (item_videoUrl item)"
    show "(\<forall>ext. get_file_extension (urlparse_path e) ?v = Inr ext \<longrightarrow>
         fst (process_item e username i j item st) = None \<and>
         attempts (snd (process_item e username i j item st)) =
           attempts st @ [(?v, joinpath (videos_dir username) (carousel_stem i j @ ext))] \<and>
         downloaded_images (snd (process_item e username i j item st)) = downloaded_images st) \<and>
      (\<forall>msg. urlparse_path e ?v = Inl msg \<longrightarrow>
         process_item e username i j item st = (Some msg, st))"
      unfolding pv [OF t]
      using handle_video_ok [of e ?v _ username "carousel_stem i j" st]
        handle_video_raises [of e ?v _ username "carousel_stem i j" st]
      by blast
  qed
  have c2: "\<not> truthy (item_videoUrl item) \<and> truthy (item_displayUrl item) \<longrightarrow>
      (\<forall>ext. get_file_extension (urlparse_path e) ?d = Inr ext \<longrightarrow>
         fst (process_item e username i j item st) = None \<and>
         attempts (snd (process_item e username i j item st)) =
           attempts st @ [(?d, joinpath (images_dir username) (carousel_stem i j @ ext))]) \<and>
      (\<forall>msg. urlparse_path e ?d = Inl msg \<longrightarrow>
         process_item e username i j item st = (Some msg, st))"
  proof
    assume t: "\<not> truthy (item_videoUrl item) \<and> truthy (item_displayUrl item)"
    then have eq: "process_item e username i j item st =
        handle_image e username (carousel_stem i j) ?d st" using pd by blast
    show "(\<forall>ext. get_file_extension (urlparse_path e) ?d = Inr ext \<longrightarrow>
         fst (process_item e username i j item st) = None \<and>
         attempts (snd (process_item e username i j item st)) =
           attempts st @ [(?d, joinpath (images_dir username) (carousel_stem i j @ ext))]) \<and>
      (\<forall>msg. urlparse_path e ?d = Inl msg \<longrightarrow>
         process_item e username i j item st = (Some msg, st))"
      unfolding eq
      using handle_image_ok [of e ?d _ username "carousel_stem i j" st]
        handle_image_raises [of e ?d _ username "carousel_stem i j" st]
      by blast
  qed
  have c3: "\<not> truthy (item_videoUrl item) \<and> \<not> truthy (item_displayUrl item) \<longrightarrow>
      process_item e username i j item st = (None, st)"
    by (simp add: process_item_def)
  have c4: "length (attempts (snd (process_item e username i j item st))) \<le> Suc (length (attempts st))"
    using handle_video_attempts_le [of e username "carousel_stem i j" ?v st]
      handle_image_attempts_le [of e username "carousel_stem i j" ?d st]
    by (simp add: process_item_def)
  have c5: "process_item e username i j item st = process_item_video_first e username i j item st"
    by (simp add: process_item_def process_item_video_first_def)
  have c6: "fst (process_item e username i j item st) = None \<longrightarrow>
      process_items e username i j (item # rest) st =
        process_items e username i (Suc j) rest (snd (process_item e username i j item st))"
    by (cases "process_item e username i j item st") auto
  have c7: "\<forall>msg. fst (process_item e username i j item st) = Some msg \<longrightarrow>
      process_items e username i j (item # rest) st =
        (Some msg, snd (process_item e username i j item st))"
    by (cases "process_item e username i j item st") auto
  from c1 c2 c3 c4 c5 c6 c7 show ?thesis by (intro conjI)
qed

theorem carousel_item_video_first_witness:
  "truthy (item_videoUrl \<lparr>item_videoUrl = Some ''d.mp4'', item_displayUrl = Some ''cover.jpg''\<rparr>) \<and>
   get_file_extension (urlparse_path scenario_env) ''d.mp4'' = Inr ''.mp4'' \<and>
   attempts (snd (process_item scenario_env ''bob'' 2 1
      \<lparr>item_videoUrl = Some ''d.mp4'', item_displayUrl = Some ''cover.jpg''\<rparr> initial_state)) =
     [(''d.mp4'', [''instagram_downloads'', ''bob'', ''videos'', ''post_2_carousel_1.mp4''])] \<and>
   attempts (snd (process_item scenario_env ''bob'' 2 1
      \<lparr>item_videoUrl = None, item_displayUrl = Some ''c.jpg''\<rparr> initial_state)) =
     [(''c.jpg'', [''instagram_downloads'', ''bob'', ''images'', ''post_2_carousel_1.jpg''])] \<and>
   process_item scenario_env ''bob'' 2 1
      \<lparr>item_videoUrl = None, item_displayUrl = None\<rparr> initial_state = (None, initial_state)"
proof -
  let ?both = "\<lparr>item_videoUrl = Some ''d.mp4'', item_displayUrl = Some ''cover.jpg''\<rparr>"
  let ?img = "\<lparr>item_videoUrl = None, item_displayUrl = Some ''c.jpg''\<rparr>"
  let ?none = "\<lparr>item_videoUrl = None, item_displayUrl = None\<rparr>"
  have a0: "attempts initial_state = []" by (simp add: initial_state_def)
  have t1: "truthy (item_videoUrl ?both)" by (simp add: truthy_def)
  have t2: "\<not> truthy (item_videoUrl ?img) \<and> truthy (item_displayUrl ?img)"
    by (simp add: truthy_def)
  have t3: "\<not> truthy (item_videoUrl ?none) \<and> \<not> truthy (item_displayUrl ?none)"
    by (simp add: truthy_def)
  have x1: "get_file_extension (urlparse_path scenario_env) ''d.mp4'' = Inr ''.mp4''" by code_simp
  have x2: "get_file_extension (urlparse_path scenario_env) ''c.jpg'' = Inr ''.jpg''" by code_simp
  have j1: "joinpath (videos_dir ''bob'') (carousel_stem 2 1 @ ''.mp4'') =
      [''instagram_downloads'', ''bob'', ''videos'', ''post_2_carousel_1.mp4'']" by code_simp
  have j2: "joinpath (images_dir ''bob'') (carousel_stem 2 1 @ ''.jpg'') =
      [''instagram_downloads'', ''bob'', ''images'', ''post_2_carousel_1.jpg'']" by code_simp
  have x1': "get_file_extension (urlparse_path scenario_env) (subscript (item_videoUrl ?both)) =
      Inr ''.mp4''" using x1 by (simp add: subscript_def)
  have x2': "get_file_extension (urlparse_path scenario_env) (subscript (item_displayUrl ?img)) =
      Inr ''.jpg''" using x2 by (simp add: subscript_def)
  from carousel_item_video_first [of ?both scenario_env "''bob''" 2 1 initial_state "[]"] t1 x1'
  have "attempts (snd (process_item scenario_env ''bob'' 2 1 ?both initial_state)) =
     attempts initial_state @ [(subscript (item_videoUrl ?both),
        joinpath (videos_dir ''bob'') (carousel_stem 2 1 @ ''.mp4''))]"
    by blast
  with a0 j1 have a: "attempts (snd (process_item scenario_env ''bob'' 2 1 ?both initial_state)) =
     [(''d.mp4'', [''instagram_downloads'', ''bob'', ''videos'', ''post_2_carousel_1.mp4''])]"
    by (simp add: subscript_def)
  from carousel_item_video_first [of ?img scenario_env "''bob''" 2 1 initial_state "[]"] t2 x2'
  have "attempts (snd (process_item scenario_env ''bob'' 2 1 ?img initial_state)) =
     attempts initial_state @ [(subscript (item_displayUrl ?img),
        joinpath (images_dir ''bob'') (carousel_stem 2 1 @ ''.jpg''))]"
    by blast
  with a0 j2 have b: "attempts (snd (process_item scenario_env ''bob'' 2 1 ?img initial_state)) =
     [(''c.jpg'', [''instagram_downloads'', ''bob'', ''images'', ''post_2_carousel_1.jpg''])]"
    by (simp add: subscript_def)
  from carousel_item_video_first [of ?none scenario_env "''bob''" 2 1 initial_state "[]"] t3
  have c: "process_item scenario_env ''bob'' 2 1 ?none initial_state = (None, initial_state)"
    by blast
  from t1 x1 a b c show ?thesis by (intro conjI)
qed

text \<open>
  Without the condition on \<open>urlparse\<close> the statement fails, at an item whose video URL
  \<open>urlparse\<close> rejects: the item has a video URL and yields no download, and the item after
  it, which has a display URL, yields none either.
\<close>

theorem carousel_item_video_first_counterexample:
  "truthy (item_videoUrl \<lparr>item_videoUrl = Some ''http://[bad'', item_displayUrl = None\<rparr>) \<and>
   truthy (item_displayUrl \<lparr>item_videoUrl = None, item_displayUrl = Some ''c.jpg''\<rparr>) \<and>
   process_item scenario_env ''bob'' 1 1
      \<lparr>item_videoUrl = Some ''http://[bad'', item_displayUrl = None\<rparr> initial_state =
     (Some ''Invalid IPv6 URL'', initial_state) \<and>
   process_items scenario_env ''bob'' 1 1
      [\<lparr>item_videoUrl = Some ''http://[bad'', item_displayUrl = None\<rparr>,
       \<lparr>item_videoUrl = None, item_displayUrl = Some ''c.jpg''\<rparr>] initial_state =
     (Some ''Invalid IPv6 URL'', initial_state) \<and>
   attempts initial_state = []"
proof -
  have u: "urlparse_path scenario_env ''http://[bad'' = Inl ''Invalid IPv6 URL''"
    by (simp add: scenario_env_def)
  have r: "process_item scenario_env ''bob'' 1 1
      \<lparr>item_videoUrl = Some ''http://[bad'', item_displayUrl = None\<rparr> initial_state =
     (Some ''Invalid IPv6 URL'', initial_state)"
    by (simp add: process_item_def truthy_def subscript_def handle_video_raises [OF u])
  have s: "process_items scenario_env ''bob'' 1 1
      [\<lparr>item_videoUrl = Some ''http://[bad'', item_displayUrl = None\<rparr>,
       \<lparr>item_videoUrl = None, item_displayUrl = Some ''c.jpg''\<rparr>] initial_state =
     (Some ''Invalid IPv6 URL'', initial_state)"
    using r by simp
  from r s show ?thesis by (simp add: truthy_def initial_state_def)
qed




text \<open>
  C3, as the code has it. The end-to-end scenario: the run reaches the loop over the
  posts with the two posts of \<open>scenario_posts\<close> (the directories are made, the dataset is
  retrieved and parsed, \<open>metadata.json\<close> is written), the four URLs parse to themselves
  and every download succeeds. Then the run downloads exactly \<open>images/post_1.jpg\<close>,
  \<open>videos/post_2.mp4\<close>, \<open>images/post_2_carousel_1.jpg\<close> and
  \<open>videos/post_2_carousel_2.mp4\<close> below the base directory, in that order, and the
  annotation input is the first and the third of them, in that order. When
  \<open>analysis_results.json\<close> is then opened and written without an exception, the persisted
  analysis results are exactly two records, for these two paths in that order, whatever
  the vision service answers, and the summary is the success summary with 2 and 2; when
  opening or writing it raises, nothing is persisted and the summary is the error summary.
\<close>

theorem two_post_scenario:
  assumes "\<forall>d. mkdir e d = None"
    and "actor_call e (make_run_input username limit) = Inr dataset_id"
    and "requests_get e (dataset_url dataset_id) = Inr content"
    and "json_loads e content = Inr scenario_posts"
    and "open_write e (joinpath (base_dir username) ''metadata.json'') = None"
    and "json_dump e (joinpath (base_dir username) ''metadata.json'') = None"
    and "\<forall>k url p. fetch e k url p = Fetched"
    and "urlparse_path e ''a.jpg'' = Inr ''a.jpg''"
    and "urlparse_path e ''b.mp4'' = Inr ''b.mp4''"
    and "urlparse_path e ''c.jpg'' = Inr ''c.jpg''"
    and "urlparse_path e ''d.mp4'' = Inr ''d.mp4''"
  shows "attempts (snd (scrape_and_analyze e username limit)) =
      [(''a.jpg'', base_dir username @ [''images'', ''post_1.jpg'']),
       (''b.mp4'', base_dir username @ [''videos'', ''post_2.mp4'']),
       (''c.jpg'', base_dir username @ [''images'', ''post_2_carousel_1.jpg'']),
       (''d.mp4'', base_dir username @ [''videos'', ''post_2_carousel_2.mp4''])] \<and>
    stored (snd (scrape_and_analyze e username limit)) =
      [base_dir username @ [''images'', ''post_1.jpg''],
       base_dir username @ [''videos'', ''post_2.mp4''],
       base_dir username @ [''images'', ''post_2_carousel_1.jpg''],
       base_dir username @ [''videos'', ''post_2_carousel_2.mp4'']] \<and>
    downloaded_images (snd (scrape_and_analyze e username limit)) =
      [base_dir username @ [''images'', ''post_1.jpg''],
       base_dir username @ [''images'', ''post_2_carousel_1.jpg'']] \<and>
    (open_write e (joinpath (base_dir username) ''analysis_results.json'') = None \<and>
     json_dump e (joinpath (base_dir username) ''analysis_results.json'') = None \<longrightarrow>
       (\<exists>rs. analysis (snd (scrape_and_analyze e username limit)) = Some rs \<and>
          rs = analyze_images e [base_dir username @ [''images'', ''post_1.jpg''],
                                 base_dir username @ [''images'', ''post_2_carousel_1.jpg'']] \<and>
          length rs = 2 \<and>
          map image_path rs =
            [path_str (base_dir username @ [''images'', ''post_1.jpg'']),
             path_str (base_dir username @ [''images'', ''post_2_carousel_1.jpg''])]) \<and>
       (\<exists>b mp ap. fst (scrape_and_analyze e username limit) = Inr (Success b 2 2 mp ap))) \<and>
    (\<forall>msg.
       open_write e (joinpath (base_dir username) ''analysis_results.json'') = Some msg \<or>
       open_write e (joinpath (base_dir username) ''analysis_results.json'') = None \<and>
       json_dump e (joinpath (base_dir username) ''analysis_results.json'') = Some msg \<longrightarrow>
         analysis (snd (scrape_and_analyze e username limit)) = None \<and>
         fst (scrape_and_analyze e username limit) = Inr (Error msg))"
proof -
  let ?A = "joinpath (base_dir username) ''analysis_results.json''"
  let ?R = "scrape_and_analyze e username limit"
  have "fst (create_download_directory e username initial_state) = None"
    unfolding create_download_directory_def using assms(1) by (rule mkdirs_all_ok)
  then obtain st0 where c: "create_download_directory e username initial_state = (None, st0)"
    by (cases "create_download_directory e username initial_state") simp
  from create_download_directory_frame [of e username] c
  have f: "attempts st0 = []" "stored st0 = []" "downloaded_images st0 = []" "analysis st0 = None"
    by simp_all
  define st1 where "st1 = st0\<lparr>files_opened := files_opened st0 @
      [joinpath (base_dir username) ''metadata.json''], metadata := Some scenario_posts\<rparr>"
  define st2 where "st2 = process_posts e username 1 scenario_posts st1"
  define imgs where "imgs = [base_dir username @ [''images'', ''post_1.jpg''],
      base_dir username @ [''images'', ''post_2_carousel_1.jpg'']]"
  have f1: "attempts st1 = []" "stored st1 = []" "downloaded_images st1 = []" "analysis st1 = None"
    using f by (simp_all add: st1_def)
  note loop = scenario_loop [OF assms(7) assms(8) assms(9) assms(10) assms(11), of username st1]
  have a2: "attempts st2 =
      [(''a.jpg'', base_dir username @ [''images'', ''post_1.jpg'']),
       (''b.mp4'', base_dir username @ [''videos'', ''post_2.mp4'']),
       (''c.jpg'', base_dir username @ [''images'', ''post_2_carousel_1.jpg'']),
       (''d.mp4'', base_dir username @ [''videos'', ''post_2_carousel_2.mp4''])]"
    unfolding st2_def loop using f1 by simp
  have s2: "stored st2 =
      [base_dir username @ [''images'', ''post_1.jpg''],
       base_dir username @ [''videos'', ''post_2.mp4''],
       base_dir username @ [''images'', ''post_2_carousel_1.jpg''],
       base_dir username @ [''videos'', ''post_2_carousel_2.mp4'']]"
    unfolding st2_def loop using f1 by simp
  have d2: "downloaded_images st2 = imgs"
    unfolding st2_def loop imgs_def using f1 by simp
  have n2: "analysis st2 = None"
    unfolding st2_def loop using f1 by simp
  have run: "?R =
      (case open_write e ?A of
         Some msg \<Rightarrow> (Inr (Error msg), st2)
       | None \<Rightarrow>
           (case json_dump e ?A of
              Some msg \<Rightarrow> (Inr (Error msg), st2\<lparr>files_opened := files_opened st2 @ [?A]\<rparr>)
            | None \<Rightarrow>
                (Inr (Success (path_str (base_dir username)) (length scenario_posts)
                        (length (analyze_images e imgs))
                        (path_str (joinpath (base_dir username) ''metadata.json''))
                        (path_str ?A)),
                 st2\<lparr>files_opened := files_opened st2 @ [?A],
                      analysis := Some (analyze_images e imgs)\<rparr>)))"
    using c assms(2-6) d2
    by (simp add: scrape_and_analyze_def Let_def st2_def st1_def split: option.splits)
  have len: "length (analyze_images e imgs) = 2"
    by (simp add: analyze_images_length imgs_def)
  have paths: "map image_path (analyze_images e imgs) = map path_str imgs"
    by (rule analyze_images_paths)
  have l2: "length scenario_posts = 2" by (simp add: scenario_posts_def)
  have k1: "attempts (snd ?R) = attempts st2" "stored (snd ?R) = stored st2"
    "downloaded_images (snd ?R) = downloaded_images st2"
    unfolding run by (simp_all split: option.splits)
  have k2: "open_write e ?A = None \<and> json_dump e ?A = None \<longrightarrow>
       (\<exists>rs. analysis (snd ?R) = Some rs \<and>
          rs = analyze_images e [base_dir username @ [''images'', ''post_1.jpg''],
                                 base_dir username @ [''images'', ''post_2_carousel_1.jpg'']] \<and>
          length rs = 2 \<and>
          map image_path rs =
            [path_str (base_dir username @ [''images'', ''post_1.jpg'']),
             path_str (base_dir username @ [''images'', ''post_2_carousel_1.jpg''])]) \<and>
       (\<exists>b mp ap. fst ?R = Inr (Success b 2 2 mp ap))"
  proof
    assume w: "open_write e ?A = None \<and> json_dump e ?A = None"
    show "(\<exists>rs. analysis (snd ?R) = Some rs \<and>
          rs = analyze_images e [base_dir username @ [''images'', ''post_1.jpg''],
                                 base_dir username @ [''images'', ''post_2_carousel_1.jpg'']] \<and>
          length rs = 2 \<and>
          map image_path rs =
            [path_str (base_dir username @ [''images'', ''post_1.jpg'']),
             path_str (base_dir username @ [''images'', ''post_2_carousel_1.jpg''])]) \<and>
       (\<exists>b mp ap. fst ?R = Inr (Success b 2 2 mp ap))"
      unfolding run using w len paths l2 by (simp add: imgs_def)
  qed
  have k3: "\<forall>msg. open_write e ?A = Some msg \<or>
       open_write e ?A = None \<and> json_dump e ?A = Some msg \<longrightarrow>
         analysis (snd ?R) = None \<and> fst ?R = Inr (Error msg)"
    unfolding run using n2 by auto
  from k1 a2 s2 d2 k2 k3 show ?thesis by (simp add: imgs_def)
qed

theorem two_post_scenario_witness:
  "(\<forall>d. mkdir scenario_env d = None) \<and>
   actor_call scenario_env (make_run_input ''bob'' 2) = Inr ''ds1'' \<and>
   requests_get scenario_env (dataset_url ''ds1'') = Inr ''[]'' \<and>
   json_loads scenario_env ''[]'' = Inr scenario_posts \<and>
   open_write scenario_env (joinpath (base_dir ''bob'') ''metadata.json'') = None \<and>
   json_dump scenario_env (joinpath (base_dir ''bob'') ''metadata.json'') = None \<and>
   (\<forall>k url p. fetch scenario_env k url p = Fetched) \<and>
   urlparse_path scenario_env ''a.jpg'' = Inr ''a.jpg'' \<and>
   urlparse_path scenario_env ''b.mp4'' = Inr ''b.mp4'' \<and>
   urlparse_path scenario_env ''c.jpg'' = Inr ''c.jpg'' \<and>
   urlparse_path scenario_env ''d.mp4'' = Inr ''d.mp4'' \<and>
   open_write scenario_env (joinpath (base_dir ''bob'') ''analysis_results.json'') = None \<and>
   json_dump scenario_env (joinpath (base_dir ''bob'') ''analysis_results.json'') = None \<and>
   stored (snd (scrape_and_analyze scenario_env ''bob'' 2)) =
     [[''instagram_downloads'', ''bob'', ''images'', ''post_1.jpg''],
      [''instagram_downloads'', ''bob'', ''videos'', ''post_2.mp4''],
      [''instagram_downloads'', ''bob'', ''images'', ''post_2_carousel_1.jpg''],
      [''instagram_downloads'', ''bob'', ''videos'', ''post_2_carousel_2.mp4'']] \<and>
   downloaded_images (snd (scrape_and_analyze scenario_env ''bob'' 2)) =
     [[''instagram_downloads'', ''bob'', ''images'', ''post_1.jpg''],
      [''instagram_downloads'', ''bob'', ''images'', ''post_2_carousel_1.jpg'']] \<and>
   (\<exists>rs. analysis (snd (scrape_and_analyze scenario_env ''bob'' 2)) = Some rs \<and>
      map image_path rs =
        [''instagram_downloads/bob/images/post_1.jpg'',
         ''instagram_downloads/bob/images/post_2_carousel_1.jpg''])"
proof -
  have h1: "\<forall>d. mkdir scenario_env d = None" by (simp add: scenario_env_def)
  have h2: "actor_call scenario_env (make_run_input ''bob'' 2) = Inr ''ds1''"
    by (simp add: scenario_env_def)
  have h3: "requests_get scenario_env (dataset_url ''ds1'') = Inr ''[]''"
    by (simp add: scenario_env_def)
  have h4: "json_loads scenario_env ''[]'' = Inr scenario_posts" by (simp add: scenario_env_def)
  have h5: "open_write scenario_env (joinpath (base_dir ''bob'') ''metadata.json'') = None"
    by (simp add: scenario_env_def)
  have h6: "json_dump scenario_env (joinpath (base_dir ''bob'') ''metadata.json'') = None"
    by (simp add: scenario_env_def)
  have h7: "\<forall>k url p. fetch scenario_env k url p = Fetched" by (simp add: scenario_env_def)
  have h8: "urlparse_path scenario_env ''a.jpg'' = Inr ''a.jpg''" by (simp add: scenario_env_def)
  have h9: "urlparse_path scenario_env ''b.mp4'' = Inr ''b.mp4''" by (simp add: scenario_env_def)
  have h10: "urlparse_path scenario_env ''c.jpg'' = Inr ''c.jpg''" by (simp add: scenario_env_def)
  have h11: "urlparse_path scenario_env ''d.mp4'' = Inr ''d.mp4''" by (simp add: scenario_env_def)
  have w1: "open_write scenario_env (joinpath (base_dir ''bob'') ''analysis_results.json'') = None"
    by (simp add: scenario_env_def)
  have w2: "json_dump scenario_env (joinpath (base_dir ''bob'') ''analysis_results.json'') = None"
    by (simp add: scenario_env_def)
  have b: "base_dir ''bob'' = [''instagram_downloads'', ''bob'']" by code_simp
  have p1: "path_str [''instagram_downloads'', ''bob'', ''images'', ''post_1.jpg''] =
      ''instagram_downloads/bob/images/post_1.jpg''" by (simp add: path_str_def)
  have p2: "path_str [''instagram_downloads'', ''bob'', ''images'', ''post_2_carousel_1.jpg''] =
      ''instagram_downloads/bob/images/post_2_carousel_1.jpg''" by (simp add: path_str_def)
  note th = two_post_scenario [OF h1 h2 h3 h4 h5 h6 h7 h8 h9 h10 h11]
  from th have s: "stored (snd (scrape_and_analyze scenario_env ''bob'' 2)) =
     [[''instagram_downloads'', ''bob'', ''images'', ''post_1.jpg''],
      [''instagram_downloads'', ''bob'', ''videos'', ''post_2.mp4''],
      [''instagram_downloads'', ''bob'', ''images'', ''post_2_carousel_1.jpg''],
      [''instagram_downloads'', ''bob'', ''videos'', ''post_2_carousel_2.mp4'']]"
    by (simp add: b)
  from th have d: "downloaded_images (snd (scrape_and_analyze scenario_env ''bob'' 2)) =
     [[''instagram_downloads'', ''bob'', ''images'', ''post_1.jpg''],
      [''instagram_downloads'', ''bob'', ''images'', ''post_2_carousel_1.jpg'']]"
    by (simp add: b)
  note k = th [THEN conjunct2, THEN conjunct2, THEN conjunct2, THEN conjunct1]
  from mp [OF k conjI [OF w1 w2], THEN conjunct1]
  have "\<exists>rs. analysis (snd (scrape_and_analyze scenario_env ''bob'' 2)) = Some rs \<and>
          rs = analyze_images scenario_env [base_dir ''bob'' @ [''images'', ''post_1.jpg''],
                                 base_dir ''bob'' @ [''images'', ''post_2_carousel_1.jpg'']] \<and>
          length rs = 2 \<and>
          map image_path rs =
            [path_str (base_dir ''bob'' @ [''images'', ''post_1.jpg'']),
             path_str (base_dir ''bob'' @ [''images'', ''post_2_carousel_1.jpg''])]"
    .
  then obtain rs where "analysis (snd (scrape_and_analyze scenario_env ''bob'' 2)) = Some rs"
    "map image_path rs =
         [path_str (base_dir ''bob'' @ [''images'', ''post_1.jpg'']),
          path_str (base_dir ''bob'' @ [''images'', ''post_2_carousel_1.jpg''])]"
    by (elim exE conjE)
  then have r: "\<exists>rs. analysis (snd (scrape_and_analyze scenario_env ''bob'' 2)) = Some rs \<and>
      map image_path rs =
        [''instagram_downloads/bob/images/post_1.jpg'',
         ''instagram_downloads/bob/images/post_2_carousel_1.jpg'']"
    by (simp add: b p1 p2)
  from h1 h2 h3 h4 h5 h6 h7 h8 h9 h10 h11 w1 w2 s d r show ?thesis by (intro conjI)
qed

text \<open>
  Without the condition on the write the statement fails, when the results cannot be
  written: the input is the two posts, every download succeeds and the four files are
  stored, but the persisted analysis results do not hold two records, they do not exist.
\<close>

theorem two_post_scenario_counterexample:
  "json_loads late_failure_env ''[]'' = Inr scenario_posts \<and>
   (\<forall>k url p. fetch late_failure_env k url p = Fetched) \<and>
   length (stored (snd (scrape_and_analyze late_failure_env ''bob'' 2))) = 4 \<and>
   analysis (snd (scrape_and_analyze late_failure_env ''bob'' 2)) = None \<and>
   fst (scrape_and_analyze late_failure_env ''bob'' 2) = Inr (Error ''No space left on device'')"
proof -
  have a: "json_loads late_failure_env ''[]'' = Inr scenario_posts"
    by (simp add: late_failure_env_def scenario_env_def)
  have b: "\<forall>k url p. fetch late_failure_env k url p = Fetched"
    by (simp add: late_failure_env_def scenario_env_def)
  have c: "length (stored (snd (scrape_and_analyze late_failure_env ''bob'' 2))) = 4"
    by code_simp
  have d: "analysis (snd (scrape_and_analyze late_failure_env ''bob'' 2)) = None"
    by code_simp
  have e: "fst (scrape_and_analyze late_failure_env ''bob'' 2) =
      Inr (Error ''No space left on device'')"
    by code_simp
  from a b c d e show ?thesis by (intro conjI)
qed

text \<open>
  C4. \<open>analyze_images\<close> returns one record per input path, in the order of the input, and
  the record at position \<open>k\<close> is what the body of the loop yields for the image at \<open>k\<close>
  alone. When reading that image raises, or one of the three calls of the vision service
  does, the record is the error record of that image with the message of the exception;
  the other records and their number are unaffected.
\<close>

theorem analyze_images_one_record_per_path:
  "length (analyze_images e ps) = length ps \<and>
   map image_path (analyze_images e ps) = map path_str ps \<and>
   (\<forall>k < length ps. analyze_images e ps ! k = analyze_one e k (ps ! k)) \<and>
   (\<forall>k < length ps. \<forall>msg. read_image e k (ps ! k) = Inl msg \<longrightarrow>
      analyze_images e ps ! k = Failure (path_str (ps ! k)) msg) \<and>
   (\<forall>k < length ps. \<forall>content msg.
      read_image e k (ps ! k) = Inr content \<and>
      (face_detection e k content = Inl msg \<or>
       (\<exists>fs. face_detection e k content = Inr fs) \<and> label_detection e k content = Inl msg \<or>
       (\<exists>fs. face_detection e k content = Inr fs) \<and> (\<exists>ls. label_detection e k content = Inr ls) \<and>
         safe_search_detection e k content = Inl msg) \<longrightarrow>
      analyze_images e ps ! k = Failure (path_str (ps ! k)) msg)"
proof -
  have len: "length (analyze_images e ps) = length ps" by (simp add: analyze_images_eq)
  have nth: "analyze_images e ps ! k = analyze_one e k (ps ! k)" if "k < length ps" for k
    using that by (simp add: analyze_images_eq)
  have paths: "map image_path (analyze_images e ps) = map path_str ps"
    by (rule nth_equalityI) (simp_all add: len nth analyze_one_image_path)
  have rd: "analyze_one e k p = Failure (path_str p) msg" if "read_image e k p = Inl msg" for k p msg
    using that by (simp add: analyze_one_def)
  have sv: "analyze_one e k p = Failure (path_str p) msg"
    if "read_image e k p = Inr content"
      "face_detection e k content = Inl msg \<or>
       (\<exists>fs. face_detection e k content = Inr fs) \<and> label_detection e k content = Inl msg \<or>
       (\<exists>fs. face_detection e k content = Inr fs) \<and> (\<exists>ls. label_detection e k content = Inr ls) \<and>
         safe_search_detection e k content = Inl msg"
    for k p content msg
    using that by (auto simp: analyze_one_def)
  have c3: "\<forall>k < length ps. analyze_images e ps ! k = analyze_one e k (ps ! k)"
    using nth by simp
  have c4: "\<forall>k < length ps. \<forall>msg. read_image e k (ps ! k) = Inl msg \<longrightarrow>
      analyze_images e ps ! k = Failure (path_str (ps ! k)) msg"
    using nth rd by simp
  have c5: "\<forall>k < length ps. \<forall>content msg.
      read_image e k (ps ! k) = Inr content \<and>
      (face_detection e k content = Inl msg \<or>
       (\<exists>fs. face_detection e k content = Inr fs) \<and> label_detection e k content = Inl msg \<or>
       (\<exists>fs. face_detection e k content = Inr fs) \<and> (\<exists>ls. label_detection e k content = Inr ls) \<and>
         safe_search_detection e k content = Inl msg) \<longrightarrow>
      analyze_images e ps ! k = Failure (path_str (ps ! k)) msg"
  proof (intro allI impI)
    fix k content msg
    assume k: "k < length ps"
    assume h: "read_image e k (ps ! k) = Inr content \<and>
      (face_detection e k content = Inl msg \<or>
       (\<exists>fs. face_detection e k content = Inr fs) \<and> label_detection e k content = Inl msg \<or>
       (\<exists>fs. face_detection e k content = Inr fs) \<and> (\<exists>ls. label_detection e k content = Inr ls) \<and>
         safe_search_detection e k content = Inl msg)"
    from h have "analyze_one e k (ps ! k) = Failure (path_str (ps ! k)) msg"
      using sv [of k "ps ! k" content msg] by blast
    with nth [OF k] show "analyze_images e ps ! k = Failure (path_str (ps ! k)) msg" by simp
  qed
  from len paths c3 c4 c5 show ?thesis by (intro conjI)
qed

theorem analyze_images_one_record_per_path_witness:
  "(1::nat) < length [[''a'', ''post_1.jpg''], [''a'', ''post_2.jpg''], [''a'', ''post_3.jpg'']] \<and>
   read_image scenario_env 1 [''a'', ''post_2.jpg''] = Inr ''bytes'' \<and>
   face_detection scenario_env 1 ''bytes'' = Inl ''503 unavailable'' \<and>
   analyze_images scenario_env
       [[''a'', ''post_1.jpg''], [''a'', ''post_2.jpg''], [''a'', ''post_3.jpg'']] ! 1 =
     Failure ''a/post_2.jpg'' ''503 unavailable'' \<and>
   length (analyze_images scenario_env
       [[''a'', ''post_1.jpg''], [''a'', ''post_2.jpg''], [''a'', ''post_3.jpg'']]) = 3 \<and>
   analyze_images scenario_env
       [[''a'', ''post_1.jpg''], [''a'', ''post_2.jpg''], [''a'', ''post_3.jpg'']] =
     [Analysis ''a/post_1.jpg'' [] [] (''VERY_UNLIKELY'', ''UNLIKELY'', ''POSSIBLE''),
      Failure ''a/post_2.jpg'' ''503 unavailable'',
      Analysis ''a/post_3.jpg'' [] [] (''VERY_UNLIKELY'', ''UNLIKELY'', ''POSSIBLE'')]"
proof -
  let ?ps = "[[''a'', ''post_1.jpg''], [''a'', ''post_2.jpg''], [''a'', ''post_3.jpg'']]"
  have k: "(1::nat) < length ?ps" by simp
  have r: "read_image scenario_env 1 (?ps ! 1) = Inr ''bytes''" by (simp add: scenario_env_def)
  have f: "face_detection scenario_env 1 ''bytes'' = Inl ''503 unavailable''"
    by (simp add: scenario_env_def)
  have s: "path_str (?ps ! 1) = ''a/post_2.jpg''" by (simp add: path_str_def)
  note th = analyze_images_one_record_per_path [of scenario_env ?ps]
  from th have len: "length (analyze_images scenario_env ?ps) = length ?ps" by blast
  from th k r f have "analyze_images scenario_env ?ps ! 1 = Failure (path_str (?ps ! 1)) ''503 unavailable''"
    by blast
  with s have one: "analyze_images scenario_env ?ps ! 1 = Failure ''a/post_2.jpg'' ''503 unavailable''"
    by simp
  have v: "analyze_images scenario_env ?ps =
     [Analysis ''a/post_1.jpg'' [] [] (''VERY_UNLIKELY'', ''UNLIKELY'', ''POSSIBLE''),
      Failure ''a/post_2.jpg'' ''503 unavailable'',
      Analysis ''a/post_3.jpg'' [] [] (''VERY_UNLIKELY'', ''UNLIKELY'', ''POSSIBLE'')]"
    by (simp add: analyze_images_def analyze_one_def scenario_env_def path_str_def
        safe_search_data_of_def)
  from k r f one len v show ?thesis by simp
qed

text \<open>
  C6. Once the directories exist, a run in which the actor invocation raises, or in
  which the retrieval of the dataset raises, returns the error summary that carries the
  message of that exception; it does not raise to its caller, and it has opened no file,
  written neither the metadata nor the analysis results, and attempted no download.
\<close>

theorem unrecoverable_failure_returns_error_summary:
  assumes "fst (create_download_directory e username initial_state) = None"
    and "actor_call e (make_run_input username limit) = Inl msg \<or>
         (\<exists>dataset_id. actor_call e (make_run_input username limit) = Inr dataset_id \<and>
            requests_get e (dataset_url dataset_id) = Inl msg)"
  shows "fst (scrape_and_analyze e username limit) = Inr (Error msg) \<and>
    files_opened (snd (scrape_and_analyze e username limit)) = [] \<and>
    metadata (snd (scrape_and_analyze e username limit)) = None \<and>
    analysis (snd (scrape_and_analyze e username limit)) = None \<and>
    attempts (snd (scrape_and_analyze e username limit)) = []"
proof -
  obtain st0 where c: "create_download_directory e username initial_state = (None, st0)"
    using assms(1) by (cases "create_download_directory e username initial_state") simp
  from create_download_directory_frame [of e username] c
  have f: "files_opened st0 = []" "metadata st0 = None" "analysis st0 = None" "attempts st0 = []"
    by simp_all
  from assms(2) show ?thesis
  proof
    assume "actor_call e (make_run_input username limit) = Inl msg"
    with c f show ?thesis by (simp add: scrape_and_analyze_def)
  next
    assume "\<exists>dataset_id. actor_call e (make_run_input username limit) = Inr dataset_id \<and>
            requests_get e (dataset_url dataset_id) = Inl msg"
    then obtain dataset_id where "actor_call e (make_run_input username limit) = Inr dataset_id"
      "requests_get e (dataset_url dataset_id) = Inl msg" by blast
    with c f show ?thesis by (simp add: scrape_and_analyze_def)
  qed
qed

theorem unrecoverable_failure_returns_error_summary_witness:
  "fst (create_download_directory (scenario_env\<lparr>actor_call := (\<lambda>r. Inl ''actor run failed'')\<rparr>)
      ''bob'' initial_state) = None \<and>
   actor_call (scenario_env\<lparr>actor_call := (\<lambda>r. Inl ''actor run failed'')\<rparr>)
      (make_run_input ''bob'' 5) = Inl ''actor run failed'' \<and>
   fst (scrape_and_analyze (scenario_env\<lparr>actor_call := (\<lambda>r. Inl ''actor run failed'')\<rparr>) ''bob'' 5) =
      Inr (Error ''actor run failed'') \<and>
   fst (create_download_directory (scenario_env\<lparr>requests_get := (\<lambda>u. Inl ''404 Not Found'')\<rparr>)
      ''bob'' initial_state) = None \<and>
   actor_call (scenario_env\<lparr>requests_get := (\<lambda>u. Inl ''404 Not Found'')\<rparr>)
      (make_run_input ''bob'' 5) = Inr ''ds1'' \<and>
   requests_get (scenario_env\<lparr>requests_get := (\<lambda>u. Inl ''404 Not Found'')\<rparr>)
      (dataset_url ''ds1'') = Inl ''404 Not Found'' \<and>
   fst (scrape_and_analyze (scenario_env\<lparr>requests_get := (\<lambda>u. Inl ''404 Not Found'')\<rparr>) ''bob'' 5) =
      Inr (Error ''404 Not Found'') \<and>
   metadata (snd (scrape_and_analyze (scenario_env\<lparr>requests_get := (\<lambda>u. Inl ''404 Not Found'')\<rparr>)
      ''bob'' 5)) = None"
proof -
  let ?a = "scenario_env\<lparr>actor_call := (\<lambda>r. Inl ''actor run failed'')\<rparr>"
  let ?g = "scenario_env\<lparr>requests_get := (\<lambda>u. Inl ''404 Not Found'')\<rparr>"
  have a1: "fst (create_download_directory ?a ''bob'' initial_state) = None"
    by (simp add: create_download_directory_def scenario_env_def)
  have a2: "actor_call ?a (make_run_input ''bob'' 5) = Inl ''actor run failed''" by simp
  have g1: "fst (create_download_directory ?g ''bob'' initial_state) = None"
    by (simp add: create_download_directory_def scenario_env_def)
  have g2: "actor_call ?g (make_run_input ''bob'' 5) = Inr ''ds1''" by (simp add: scenario_env_def)
  have g3: "requests_get ?g (dataset_url ''ds1'') = Inl ''404 Not Found''" by simp
  from g2 g3 have g4: "actor_call ?g (make_run_input ''bob'' 5) = Inl ''404 Not Found'' \<or>
      (\<exists>dataset_id. actor_call ?g (make_run_input ''bob'' 5) = Inr dataset_id \<and>
         requests_get ?g (dataset_url dataset_id) = Inl ''404 Not Found'')" by blast
  from a2 have a3: "actor_call ?a (make_run_input ''bob'' 5) = Inl ''actor run failed'' \<or>
      (\<exists>dataset_id. actor_call ?a (make_run_input ''bob'' 5) = Inr dataset_id \<and>
         requests_get ?a (dataset_url dataset_id) = Inl ''actor run failed'')" by blast
  note ta = unrecoverable_failure_returns_error_summary [OF a1 a3]
  note tg = unrecoverable_failure_returns_error_summary [OF g1 g4]
  from a1 a2 g1 g2 g3 ta tg show ?thesis by blast
qed

text \<open>
  C10. Whenever a run returns the success summary, its \<open>posts_processed\<close> is the number
  of post descriptors that parsing the dataset returned, whatever happened to each post:
  an exception while it was processed, failed downloads, or no media at all.
\<close>

theorem posts_processed_counts_every_post:
  assumes "fst (scrape_and_analyze e username limit) = Inr (Success b n m mp ap)"
  shows "\<exists>dataset_id content posts.
     actor_call e (make_run_input username limit) = Inr dataset_id \<and>
     requests_get e (dataset_url dataset_id) = Inr content \<and>
     json_loads e content = Inr posts \<and>
     n = length posts"
  using run_success [OF assms] by blast

theorem posts_processed_counts_every_post_witness:
  "fst (scrape_and_analyze rough_env ''bob'' 4) =
     Inr (Success ''instagram_downloads/bob'' 4 1 ''instagram_downloads/bob/metadata.json''
            ''instagram_downloads/bob/analysis_results.json'') \<and>
   length rough_posts = 4 \<and>
   failed_posts (snd (scrape_and_analyze rough_env ''bob'' 4)) = [(1, ''Invalid IPv6 URL'')] \<and>
   map fst (attempts (snd (scrape_and_analyze rough_env ''bob'' 4))) = [''fail.png'', ''ok.PNG''] \<and>
   stored (snd (scrape_and_analyze rough_env ''bob'' 4)) =
     [[''instagram_downloads'', ''bob'', ''images'', ''post_4.png'']]"
proof -
  have r: "fst (scrape_and_analyze rough_env ''bob'' 4) =
     Inr (Success ''instagram_downloads/bob'' 4 1 ''instagram_downloads/bob/metadata.json''
            ''instagram_downloads/bob/analysis_results.json'')"
    by code_simp
  have l: "length rough_posts = 4" by (simp add: rough_posts_def)
  have f: "failed_posts (snd (scrape_and_analyze rough_env ''bob'' 4)) = [(1, ''Invalid IPv6 URL'')]"
    by code_simp
  have a: "map fst (attempts (snd (scrape_and_analyze rough_env ''bob'' 4))) = [''fail.png'', ''ok.PNG'']"
    by code_simp
  have s: "stored (snd (scrape_and_analyze rough_env ''bob'' 4)) =
     [[''instagram_downloads'', ''bob'', ''images'', ''post_4.png'']]"
    by code_simp
  from posts_processed_counts_every_post [OF r]
  obtain d c ps where "json_loads rough_env c = Inr ps" "(4::nat) = length ps" by blast
  then have "length rough_posts = 4" by (simp add: rough_env_def)
  with r f a s show ?thesis by simp
qed

text \<open>
  C7. \<open>download_media\<close> returns a boolean for every URL and destination: when the
  request raises, the status is not a success or the write raises, it returns \<open>False\<close>
  and only records the attempt. The downloads a run attempts, and their order, are the
  same whatever the outcomes of the downloads are, so a failed download never keeps a
  later media item from being attempted.
\<close>

theorem failed_download_is_contained:
  "(fetch e (length (attempts st)) url target \<noteq> Fetched \<longrightarrow>
      download_media e url target st = (False, st\<lparr>attempts := attempts st @ [(url, target)]\<rparr>)) \<and>
   attempts (snd (scrape_and_analyze (e\<lparr>fetch := f\<rparr>) username limit)) =
     attempts (snd (scrape_and_analyze e username limit))"
proof -
  have a: "fetch e (length (attempts st)) url target \<noteq> Fetched \<longrightarrow>
      download_media e url target st = (False, st\<lparr>attempts := attempts st @ [(url, target)]\<rparr>)"
    by (cases "fetch e (length (attempts st)) url target") (simp_all add: download_media_def)
  from a run_attempts_fetch [where e = e and f = f and u = username and l = limit]
  show ?thesis by (intro conjI)
qed

theorem failed_download_is_contained_witness:
  "fetch (scenario_env\<lparr>fetch := (\<lambda>n u p. BadStatus ''403 Forbidden'')\<rparr>)
      (length (attempts initial_state)) ''a.jpg'' [''x'', ''post_1.jpg''] \<noteq> Fetched \<and>
   fst (download_media (scenario_env\<lparr>fetch := (\<lambda>n u p. BadStatus ''403 Forbidden'')\<rparr>)
      ''a.jpg'' [''x'', ''post_1.jpg''] initial_state) = False \<and>
   map fst (attempts (snd (scrape_and_analyze
      (scenario_env\<lparr>fetch := (\<lambda>n u p. BadStatus ''403 Forbidden'')\<rparr>) ''bob'' 2))) =
     [''a.jpg'', ''b.mp4'', ''c.jpg'', ''d.mp4''] \<and>
   stored (snd (scrape_and_analyze
      (scenario_env\<lparr>fetch := (\<lambda>n u p. BadStatus ''403 Forbidden'')\<rparr>) ''bob'' 2)) = []"
proof -
  let ?f = "\<lambda>(n::nat) (u::string) (p::path). BadStatus ''403 Forbidden''"
  let ?e = "scenario_env\<lparr>fetch := ?f\<rparr>"
  have h: "fetch ?e (length (attempts initial_state)) ''a.jpg'' [''x'', ''post_1.jpg''] \<noteq> Fetched"
    by simp
  note th = failed_download_is_contained [of ?e initial_state "''a.jpg''" "[''x'', ''post_1.jpg'']"
      ?f "''bob''" 2]
  from th h have d: "fst (download_media ?e ''a.jpg'' [''x'', ''post_1.jpg''] initial_state) = False"
    by simp
  have ok: "map fst (attempts (snd (scrape_and_analyze scenario_env ''bob'' 2))) =
     [''a.jpg'', ''b.mp4'', ''c.jpg'', ''d.mp4'']"
    by code_simp
  from failed_download_is_contained [of scenario_env initial_state "''a.jpg''" "[''x'', ''post_1.jpg'']"
      ?f "''bob''" 2]
  have "attempts (snd (scrape_and_analyze ?e ''bob'' 2)) =
     attempts (snd (scrape_and_analyze scenario_env ''bob'' 2))" by blast
  with ok have at: "map fst (attempts (snd (scrape_and_analyze ?e ''bob'' 2))) =
     [''a.jpg'', ''b.mp4'', ''c.jpg'', ''d.mp4'']" by simp
  have st: "stored (snd (scrape_and_analyze ?e ''bob'' 2)) = []" by code_simp
  from h d at st show ?thesis by blast
qed

text \<open>
  C8. Path planning is injective: within the run of one username, two destinations
  derived for the kinds, post indices and carousel indices \<open>(k1, i1, c1)\<close> and
  \<open>(k2, i2, c2)\<close>, each with the extension \<open>get_file_extension\<close> returns for some URL, are
  equal only if the two triples are equal. A top-level item has no carousel index
  (\<open>None\<close>). The indices need not even be 1-based.
\<close>

theorem path_planning_injective:
  assumes "get_file_extension up url1 = Inr e1"
    and "get_file_extension up url2 = Inr e2"
    and "save_path username k1 i1 c1 e1 = save_path username k2 i2 c2 e2"
  shows "(k1, i1, c1) = (k2, i2, c2)"
proof -
  have v1: "valid_ext e1" using assms(1) by (rule get_file_extension_valid)
  have v2: "valid_ext e2" using assms(2) by (rule get_file_extension_valid)
  from save_path_inj [OF v1 v2 assms(3)] show ?thesis by simp
qed

theorem path_planning_injective_witness:
  "get_file_extension Inr ''https://cdn.example/p/a.jpg'' = Inr ''.jpg'' \<and>
   get_file_extension Inr ''x/c.JPG'' = Inr ''.jpg'' \<and>
   save_path ''bob'' Image 2 (Some 1) ''.jpg'' = save_path ''bob'' Image 2 (Some 1) ''.jpg'' \<and>
   (Image, 2::nat, Some (1::nat)) = (Image, 2, Some 1) \<and>
   save_path ''bob'' Image 1 None ''.jpg'' \<noteq> save_path ''bob'' Image 1 (Some 1) ''.jpg'' \<and>
   save_path ''bob'' Image 1 None ''.jpg'' \<noteq> save_path ''bob'' Video 1 None ''.jpg'' \<and>
   save_path ''bob'' Image 1 None ''.jpg'' \<noteq> save_path ''bob'' Image 11 None ''.jpg''"
proof -
  have a: "get_file_extension Inr ''https://cdn.example/p/a.jpg'' = Inr ''.jpg''" by code_simp
  have b: "get_file_extension Inr ''x/c.JPG'' = Inr ''.jpg''" by code_simp
  have c: "save_path ''bob'' Image 2 (Some 1) ''.jpg'' = save_path ''bob'' Image 2 (Some 1) ''.jpg''"
    by simp
  from path_planning_injective [OF a b c]
  have d: "(Image, 2::nat, Some (1::nat)) = (Image, 2, Some 1)" .
  have n1: "save_path ''bob'' Image 1 None ''.jpg'' \<noteq> save_path ''bob'' Image 1 (Some 1) ''.jpg''"
    using path_planning_injective [OF a b, of "''bob''" Image 1 None Image 1 "Some 1"] by auto
  have n2: "save_path ''bob'' Image 1 None ''.jpg'' \<noteq> save_path ''bob'' Video 1 None ''.jpg''"
    using path_planning_injective [OF a b, of "''bob''" Image 1 None Video 1 None] by auto
  have n3: "save_path ''bob'' Image 1 None ''.jpg'' \<noteq> save_path ''bob'' Image 11 None ''.jpg''"
    using path_planning_injective [OF a b, of "''bob''" Image 1 None Image 11 None] by auto
  from a b c d n1 n2 n3 show ?thesis by blast
qed

text \<open>
  C9. A \<open>videoUrl\<close> or \<open>displayUrl\<close> that is present but the empty string is treated as
  absent, on a post and on a carousel item alike: processing is the same as with the field
  missing, and no download a run attempts has the empty string as its URL.
\<close>

theorem empty_url_is_absent:
  "process_post e username i (p\<lparr>videoUrl := Some []\<rparr>) st =
     process_post e username i (p\<lparr>videoUrl := None\<rparr>) st \<and>
   process_post e username i (p\<lparr>displayUrl := Some []\<rparr>) st =
     process_post e username i (p\<lparr>displayUrl := None\<rparr>) st \<and>
   process_item e username i j (item\<lparr>item_videoUrl := Some []\<rparr>) st =
     process_item e username i j (item\<lparr>item_videoUrl := None\<rparr>) st \<and>
   process_item e username i j (item\<lparr>item_displayUrl := Some []\<rparr>) st =
     process_item e username i j (item\<lparr>item_displayUrl := None\<rparr>) st \<and>
   list_all (\<lambda>a. fst a \<noteq> []) (attempts (snd (scrape_and_analyze e username limit)))"
proof -
  have tv: "process_top e username i (p\<lparr>videoUrl := Some []\<rparr>) =
      process_top e username i (p\<lparr>videoUrl := None\<rparr>)"
    by (simp add: process_top_def truthy_def fun_eq_iff)
  have td: "process_top e username i (p\<lparr>displayUrl := Some []\<rparr>) =
      process_top e username i (p\<lparr>displayUrl := None\<rparr>)"
  proof (rule ext)
    fix s
    show "process_top e username i (p\<lparr>displayUrl := Some []\<rparr>) s =
      process_top e username i (p\<lparr>displayUrl := None\<rparr>) s"
    proof (cases "truthy (videoUrl p)")
      case True
      then show ?thesis by (simp add: process_top_video)
    next
      case False
      then show ?thesis by (simp add: process_top_nothing truthy_def)
    qed
  qed
  have cv: "process_carousel e username i (p\<lparr>videoUrl := x\<rparr>) = process_carousel e username i p"
    for x by (simp add: process_carousel_def fun_eq_iff)
  have cd: "process_carousel e username i (p\<lparr>displayUrl := x\<rparr>) = process_carousel e username i p"
    for x by (simp add: process_carousel_def fun_eq_iff)
  have a: "process_post e username i (p\<lparr>videoUrl := Some []\<rparr>) st =
     process_post e username i (p\<lparr>videoUrl := None\<rparr>) st"
    unfolding process_post_def tv cv by (rule refl)
  have b: "process_post e username i (p\<lparr>displayUrl := Some []\<rparr>) st =
     process_post e username i (p\<lparr>displayUrl := None\<rparr>) st"
    unfolding process_post_def td cd by (rule refl)
  have c: "process_item e username i j (item\<lparr>item_videoUrl := Some []\<rparr>) st =
     process_item e username i j (item\<lparr>item_videoUrl := None\<rparr>) st"
    by (simp add: process_item_def truthy_def)
  have d: "process_item e username i j (item\<lparr>item_displayUrl := Some []\<rparr>) st =
     process_item e username i j (item\<lparr>item_displayUrl := None\<rparr>) st"
    by (simp add: process_item_def truthy_def)
  from a b c d run_attempts_nonempty_url [of e username limit] show ?thesis by (intro conjI)
qed

theorem empty_url_is_absent_witness:
  "process_post rough_env ''bob'' 3
      (\<lparr>videoUrl = None, displayUrl = Some ''ok.PNG'', sidecarItems = None\<rparr>\<lparr>videoUrl := Some []\<rparr>)
      initial_state =
   process_post rough_env ''bob'' 3
      \<lparr>videoUrl = None, displayUrl = Some ''ok.PNG'', sidecarItems = None\<rparr> initial_state \<and>
   map fst (attempts (snd (process_post rough_env ''bob'' 3
      \<lparr>videoUrl = Some [], displayUrl = Some ''ok.PNG'', sidecarItems = None\<rparr> initial_state))) =
     [''ok.PNG''] \<and>
   attempts (snd (process_post rough_env ''bob'' 3
      \<lparr>videoUrl = Some [], displayUrl = Some [], sidecarItems = None\<rparr> initial_state)) = [] \<and>
   list_all (\<lambda>a. fst a \<noteq> []) (attempts (snd (scrape_and_analyze rough_env ''bob'' 4)))"
proof -
  let ?p = "\<lparr>videoUrl = None, displayUrl = Some ''ok.PNG'', sidecarItems = None\<rparr>"
  note th = empty_url_is_absent [of rough_env "''bob''" 3 ?p initial_state 1
      "\<lparr>item_videoUrl = None, item_displayUrl = None\<rparr>" 4]
  from th have e1: "process_post rough_env ''bob'' 3 (?p\<lparr>videoUrl := Some []\<rparr>) initial_state =
     process_post rough_env ''bob'' 3 ?p initial_state" by simp
  have e2: "map fst (attempts (snd (process_post rough_env ''bob'' 3
      \<lparr>videoUrl = Some [], displayUrl = Some ''ok.PNG'', sidecarItems = None\<rparr> initial_state))) =
     [''ok.PNG'']" by code_simp
  have e3: "attempts (snd (process_post rough_env ''bob'' 3
      \<lparr>videoUrl = Some [], displayUrl = Some [], sidecarItems = None\<rparr> initial_state)) = []"
    by code_simp
  from th have e4: "list_all (\<lambda>a. fst a \<noteq> []) (attempts (snd (scrape_and_analyze rough_env ''bob'' 4)))"
    by blast
  from e1 e2 e3 e4 show ?thesis by (intro conjI)
qed

end
